theory Spec2Isabelle
  imports Main "HOL-Library.Sublist"
begin

section \<open>The shared MongoDB connection manager (class DatabaseConnection)\<close>

text \<open>
  The class keeps two private fields, \<open>isConnected\<close> and \<open>connectionPromise\<close>, and works on
  three objects it does not own: \<open>process.env\<close>, the process's signal handlers and the
  client library's \<open>mongoose.connection\<close>. All of them are fields of one record, the world the
  methods run in. What the client library does on its own (it changes \<open>readyState\<close>, emits
  lifecycle notifications, settles the promises it handed out) is input: every such move is a
  \<open>client_event\<close>. \<open>connect\<close> and \<open>disconnect\<close> are async: a call that has to wait is
  kept in the world as a suspended caller and runs its second part when the client settles
  what it waits for, so that calls can overlap as they do in the process. Log output is left
  out: the logger writes to the console and nothing reads it.
\<close>

subsection \<open>Data\<close>

type_synonym promise = nat
  \<comment> \<open>the promise returned by the n-th call of \<open>mongoose.connect\<close> (counted from 0)\<close>

type_synonym handle = nat
  \<comment> \<open>identity of the object a connect promise fulfils with\<close>

definition mongoose :: handle where
  "mongoose = 0"

datatype error =
    UriRequired        \<comment> \<open>Error: MONGODB_URI environment variable is required\<close>
  | UriInvalid         \<comment> \<open>Error: MONGODB_URI must be a valid MongoDB connection string\<close>
  | NotEstablished     \<comment> \<open>Error: Failed to establish MongoDB connection\<close>
  | TypeError          \<comment> \<open>reading \<open>admin\<close> of an undefined \<open>mongoose.connection.db\<close>\<close>
  | ClientError nat    \<comment> \<open>an error raised by the client library\<close>

datatype conn_event = EvConnected | EvError | EvDisconnected | EvReconnected | EvClose

datatype signal = SIGINT | SIGTERM

record ConnectOptions =
  maxPoolSize :: nat
  minPoolSize :: nat
  maxIdleTimeMS :: nat
  serverSelectionTimeoutMS :: nat
  socketTimeoutMS :: nat
  heartbeatFrequencyMS :: nat
  retryWrites :: bool
  writeConcern :: string
  compressors :: "string list"
  zlibCompressionLevel :: nat
  family :: nat
  bufferCommands :: bool
  connectTimeoutMS :: nat
  maxConnecting :: nat
  monitorCommands :: bool

record MongoConfig =
  uri :: string
  options :: ConnectOptions

datatype await_point =
    AwaitExisting   \<comment> \<open>\<open>return await this.connectionPromise\<close>, first branch of connect\<close>
  | AwaitNew        \<comment> \<open>\<open>await this.connectionPromise\<close> after \<open>mongoose.connect\<close>\<close>

record world =
  isConnected :: bool
  connectionPromise :: "promise option"
  MONGODB_URI :: "string option"
  NODE_ENV :: "string option"
  readyState :: nat
  connection_host :: "string option"
  connection_port :: "nat option"
  connection_name :: "string option"
  connection_db :: bool
  connection_listeners :: "conn_event list"
  process_listeners :: "signal list"
  connect_calls :: "MongoConfig list"
  settled :: "(promise \<times> (error + handle)) list"
  disconnect_calls :: nat
  ping_calls :: nat
  waiting :: "(await_point \<times> promise) list"
  results :: "(error + handle) list"
  closing :: nat

text \<open>
  \<open>connection_db\<close> says whether \<open>mongoose.connection.db\<close> is defined. \<open>connection_listeners\<close> and
  \<open>process_listeners\<close> are the registrations made through \<open>mongoose.connection.on\<close> and
  \<open>process.on\<close>, in order. \<open>connect_calls\<close>, \<open>disconnect_calls\<close> and \<open>ping_calls\<close> log the calls
  of the client's connect, close and probe primitives. \<open>settled\<close> holds the outcome of every
  connect promise that is no longer pending. \<open>waiting\<close> are the callers suspended inside
  \<open>connect\<close>, oldest first, each with the \<open>await\<close> it stands at and the promise it waits for;
  \<open>results\<close> is what the calls of \<open>connect\<close> that have finished returned or threw, in the
  order in which they finished; \<open>closing\<close> counts the callers suspended inside \<open>disconnect\<close>.
\<close>

record status =
  status_isConnected :: bool
  status_readyState :: nat
  readyStateString :: string
  status_host :: "string option"
  status_port :: "nat option"
  status_database :: "string option"

datatype suspension = Returned "error + handle" | Awaiting await_point promise

datatype close_outcome = Closed | CloseFailed error

datatype probe_outcome = ProbeOk | ProbeFailed error

datatype client_event =
    ReadyState nat
  | Emits conn_event
  | Settles promise "error + handle"
  | Closes close_outcome
  | Endpoint "string option" "nat option" "string option"
  | Db bool

subsection \<open>getConfig\<close>

definition startsWith :: "string \<Rightarrow> string \<Rightarrow> bool" where
  "startsWith s p = (take (length p) s = p)"

definition getConfig :: "world \<Rightarrow> error + MongoConfig" where
  "getConfig w =
    (case MONGODB_URI w of
       None \<Rightarrow> Inl UriRequired
     | Some u \<Rightarrow>
         if u = [] then Inl UriRequired
         else if \<not> startsWith u ''mongodb+srv://'' \<and> \<not> startsWith u ''mongodb://''
         then Inl UriInvalid
         else Inr \<lparr> uri = u,
                    options = \<lparr> maxPoolSize = 5, minPoolSize = 1, maxIdleTimeMS = 30000,
                      serverSelectionTimeoutMS = 10000, socketTimeoutMS = 45000,
                      heartbeatFrequencyMS = 10000, retryWrites = True,
                      writeConcern = ''majority'',
                      compressors = [''zstd'', ''snappy'', ''zlib''],
                      zlibCompressionLevel = 6, family = 4, bufferCommands = False,
                      connectTimeoutMS = 30000, maxConnecting = 2,
                      monitorCommands = (NODE_ENV w = Some ''development'') \<rparr> \<rparr>)"

subsection \<open>Lifecycle listeners and the client library\<close>

definition setupEventListeners :: "world \<Rightarrow> world" where
  "setupEventListeners w =
     w \<lparr> connection_listeners :=
           connection_listeners w @ [EvConnected, EvError, EvDisconnected, EvReconnected, EvClose],
         process_listeners := process_listeners w @ [SIGINT, SIGTERM] \<rparr>"

text \<open>
  The body of the listener that \<open>setupEventListeners\<close> registers for an event. Of the
  shutdown handler only the two registrations are recorded.
\<close>

fun listener :: "conn_event \<Rightarrow> world \<Rightarrow> world" where
  "listener EvConnected w = w \<lparr> isConnected := True \<rparr>"
| "listener EvError w = w \<lparr> isConnected := False \<rparr>"
| "listener EvDisconnected w = w \<lparr> isConnected := False \<rparr>"
| "listener EvReconnected w = w \<lparr> isConnected := True \<rparr>"
| "listener EvClose w = w \<lparr> isConnected := False \<rparr>"

text \<open>Emitting an event runs every listener registered for it, in registration order.\<close>

definition emit :: "conn_event \<Rightarrow> world \<Rightarrow> world" where
  "emit ev w = fold listener (filter (\<lambda>l. l = ev) (connection_listeners w)) w"

definition mongoose_connect :: "MongoConfig \<Rightarrow> world \<Rightarrow> world \<times> promise" where
  "mongoose_connect config w =
     (w \<lparr> connect_calls := connect_calls w @ [config] \<rparr>, length (connect_calls w))"

text \<open>
  \<open>mongoose.disconnect()\<close> belongs to the client library. When its promise fulfils, the
  connection is closed and \<open>readyState\<close> is 0, the value the source's own table calls
  disconnected and the value both \<open>disconnect\<close> and the smoke-test script test before they
  close. When it rejects, the connection is left as it was.
\<close>

definition mongoose_disconnect :: "close_outcome \<Rightarrow> world \<Rightarrow> world \<times> (error + unit)" where
  "mongoose_disconnect out w =
     (case out of
        Closed \<Rightarrow> (w \<lparr> readyState := 0, disconnect_calls := Suc (disconnect_calls w) \<rparr>, Inr ())
      | CloseFailed e \<Rightarrow> (w \<lparr> disconnect_calls := Suc (disconnect_calls w) \<rparr>, Inl e))"

subsection \<open>connect, in two parts\<close>

text \<open>
  An async function runs without interruption up to its first \<open>await\<close> and is resumed when
  the awaited promise has settled. \<open>connect_begin\<close> is the first part of \<open>connect\<close>,
  \<open>connect_resume\<close> the part after the \<open>await\<close>, and \<open>connect_catch\<close> the catch block.
\<close>

definition connect_catch :: "error \<Rightarrow> world \<Rightarrow> world \<times> suspension" where
  "connect_catch e w = (w \<lparr> isConnected := False, connectionPromise := None \<rparr>, Returned (Inl e))"

definition connect_begin :: "world \<Rightarrow> world \<times> suspension" where
  "connect_begin w =
    (case connectionPromise w of
       Some p \<Rightarrow> (w, Awaiting AwaitExisting p)
     | None \<Rightarrow>
         if isConnected w \<and> readyState w = 1 then (w, Returned (Inr mongoose))
         else (case getConfig w of
                 Inl e \<Rightarrow> connect_catch e w
               | Inr config \<Rightarrow>
                   (case mongoose_connect config (setupEventListeners w) of
                      (w1, p) \<Rightarrow> (w1 \<lparr> connectionPromise := Some p \<rparr>, Awaiting AwaitNew p))))"

definition connect_resume :: "await_point \<Rightarrow> promise \<Rightarrow> world \<Rightarrow> world \<times> suspension" where
  "connect_resume ap p w =
    (case map_of (settled w) p of
       None \<Rightarrow> (w, Awaiting ap p)
     | Some (Inl e) \<Rightarrow> connect_catch e w
     | Some (Inr mongooseInstance) \<Rightarrow>
         (case ap of
            AwaitExisting \<Rightarrow> (w, Returned (Inr mongooseInstance))
          | AwaitNew \<Rightarrow>
              if readyState w \<noteq> 1 then connect_catch NotEstablished w
              else (w, Returned (Inr mongooseInstance))))"

subsection \<open>The moves of the client, and who they resume\<close>

text \<open>
  A caller that has got as far as it can either has a result, which is logged, or joins the
  suspended callers.
\<close>

definition finish :: "world \<times> suspension \<Rightarrow> world" where
  "finish ws =
     (case ws of
        (w, Returned r) \<Rightarrow> w \<lparr> results := results w @ [r] \<rparr>
      | (w, Awaiting ap p) \<Rightarrow> w \<lparr> waiting := waiting w @ [(ap, p)] \<rparr>)"

text \<open>A promise settles once, and only a promise that was handed out can settle.\<close>

definition settle :: "promise \<Rightarrow> error + handle \<Rightarrow> world \<Rightarrow> world" where
  "settle p out w =
     (if p < length (connect_calls w) \<and> map_of (settled w) p = None
      then w \<lparr> settled := settled w @ [(p, out)] \<rparr> else w)"

text \<open>
  When promise \<open>p\<close> has settled, the callers suspended on it run their second part one after
  the other, in the order in which they began to wait, before anything else happens.
\<close>

definition wake :: "promise \<Rightarrow> world \<Rightarrow> world" where
  "wake p w =
     fold (\<lambda>(ap, q) v. if q = p then finish (connect_resume ap q v) else v) (waiting w)
       (w \<lparr> waiting := filter (\<lambda>(ap, q). q \<noteq> p) (waiting w) \<rparr>)"

text \<open>
  The second part of \<open>disconnect\<close>, run when the close primitive has settled: the two
  assignments after the \<open>await\<close>, or the catch block that rethrows.
\<close>

definition disconnect_resume :: "close_outcome \<Rightarrow> world \<Rightarrow> world \<times> (error + unit)" where
  "disconnect_resume out w =
     (case out of
        Closed \<Rightarrow> (w \<lparr> isConnected := False, connectionPromise := None \<rparr>, Inr ())
      | CloseFailed e \<Rightarrow> (w, Inl e))"

text \<open>
  \<open>Settles\<close> settles a connect promise and resumes the callers suspended on it. \<open>Closes\<close>
  settles the close of one caller suspended inside \<open>disconnect\<close> (a fulfilled close leaves
  \<open>readyState\<close> 0) and resumes that caller.
\<close>

fun client :: "client_event \<Rightarrow> world \<Rightarrow> world" where
  "client (ReadyState n) w = w \<lparr> readyState := n \<rparr>"
| "client (Emits ev) w = emit ev w"
| "client (Settles p out) w = wake p (settle p out w)"
| "client (Closes out) w =
     (if closing w = 0 then w
      else fst (disconnect_resume out
             (case out of
                Closed \<Rightarrow> w \<lparr> readyState := 0, closing := closing w - 1 \<rparr>
              | CloseFailed e \<Rightarrow> w \<lparr> closing := closing w - 1 \<rparr>)))"
| "client (Endpoint h p n) w =
     w \<lparr> connection_host := h, connection_port := p, connection_name := n \<rparr>"
| "client (Db b) w = w \<lparr> connection_db := b \<rparr>"

subsection \<open>connect, as one call\<close>

text \<open>
  One caller's call of \<open>connect\<close>; \<open>evs\<close> are the client's moves that follow the call. The
  caller runs the first part. If it has to wait, it is resumed as soon as its promise has
  settled, after the callers that began to wait for that promise before it; the rest of
  \<open>evs\<close> then happens after the call. If \<open>evs\<close> ends with the promise still pending, the
  caller stays among the suspended callers, to be resumed by a later move of the client.
\<close>

fun connect_await :: "await_point \<Rightarrow> promise \<Rightarrow> client_event list \<Rightarrow> world \<Rightarrow> world \<times> suspension" where
  "connect_await ap p [] w =
     (finish (connect_resume ap p w), snd (connect_resume ap p w))"
| "connect_await ap p (ev # evs) w =
     (case connect_resume ap p w of
        (w1, Returned r) \<Rightarrow> (fold client (ev # evs) (w1 \<lparr> results := results w1 @ [r] \<rparr>), Returned r)
      | (w1, Awaiting ap1 p1) \<Rightarrow> connect_await ap p evs (client ev w1))"

definition connect :: "client_event list \<Rightarrow> world \<Rightarrow> world \<times> suspension" where
  "connect evs w =
    (case connect_begin w of
       (w1, Returned r) \<Rightarrow> (fold client evs (w1 \<lparr> results := results w1 @ [r] \<rparr>), Returned r)
     | (w1, Awaiting ap p) \<Rightarrow> connect_await ap p evs w1)"

subsection \<open>disconnect, getConnectionStatus, ping\<close>

definition disconnect :: "close_outcome \<Rightarrow> world \<Rightarrow> world \<times> (error + unit)" where
  "disconnect out w =
    (if readyState w \<noteq> 0 then
       (case mongoose_disconnect out w of
          (w1, Inl e) \<Rightarrow> (w1, Inl e)
        | (w1, Inr u) \<Rightarrow> (w1 \<lparr> isConnected := False, connectionPromise := None \<rparr>, Inr ()))
     else (w, Inr ()))"

text \<open>
  \<open>disconnect\<close> is a whole call, with nothing happening between the call of the close
  primitive and its outcome. \<open>disconnect_begin\<close> is the first part alone: the caller either
  returns at once or calls the close primitive and is suspended, to be resumed by a
  \<open>Closes\<close> move of the client.
\<close>

definition disconnect_begin :: "world \<Rightarrow> world" where
  "disconnect_begin w =
    (if readyState w \<noteq> 0
     then w \<lparr> disconnect_calls := Suc (disconnect_calls w), closing := Suc (closing w) \<rparr>
     else w)"

definition readyStates :: "nat \<Rightarrow> string option" where
  "readyStates n =
    (if n = 0 then Some ''disconnected'' else if n = 1 then Some ''connected''
     else if n = 2 then Some ''connecting'' else if n = 3 then Some ''disconnecting''
     else None)"

definition getConnectionStatus :: "world \<Rightarrow> world \<times> status" where
  "getConnectionStatus w =
    (w, \<lparr> status_isConnected = isConnected w,
          status_readyState = readyState w,
          readyStateString = (case readyStates (readyState w) of Some s \<Rightarrow> s | None \<Rightarrow> ''unknown''),
          status_host = connection_host w,
          status_port = connection_port w,
          status_database = connection_name w \<rparr>)"

text \<open>\<open>ping_try\<close> is the try block of \<open>ping\<close>; \<open>ping\<close> adds the catch block.\<close>

definition ping_try :: "probe_outcome \<Rightarrow> world \<Rightarrow> world \<times> (error + bool)" where
  "ping_try out w =
    (if \<not> isConnected w then (w, Inr False)
     else if \<not> connection_db w then (w, Inl TypeError)
     else (case out of
             ProbeOk \<Rightarrow> (w \<lparr> ping_calls := Suc (ping_calls w) \<rparr>, Inr True)
           | ProbeFailed e \<Rightarrow> (w \<lparr> ping_calls := Suc (ping_calls w) \<rparr>, Inl e)))"

definition ping :: "probe_outcome \<Rightarrow> world \<Rightarrow> world \<times> (error + bool)" where
  "ping out w =
    (case ping_try out w of
       (w1, Inl e) \<Rightarrow> (w1, Inr False)
     | (w1, Inr b) \<Rightarrow> (w1, Inr b))"

subsection \<open>Runs\<close>

text \<open>
  A run is a list of calls of the public methods and of moves of the client library, one
  after the other. \<open>Connect evs\<close> is a call of \<open>connect\<close> followed by the client's moves
  \<open>evs\<close>, \<open>Disconnect\<close> a whole call of \<open>disconnect\<close>, and \<open>Disconnecting\<close> a call of
  \<open>disconnect\<close> that is left suspended when it has to wait. The second part of \<open>ping\<close> only
  computes the result, so \<open>ping\<close> is taken as a whole.
\<close>

datatype action =
    Connect "client_event list"
  | Disconnect close_outcome
  | Disconnecting
  | Ping probe_outcome
  | GetConnectionStatus
  | Client client_event

fun step :: "action \<Rightarrow> world \<Rightarrow> world" where
  "step (Connect evs) w = fst (connect evs w)"
| "step (Disconnect out) w = fst (disconnect out w)"
| "step Disconnecting w = disconnect_begin w"
| "step (Ping out) w = fst (ping out w)"
| "step GetConnectionStatus w = fst (getConnectionStatus w)"
| "step (Client ev) w = client ev w"

definition run :: "action list \<Rightarrow> world \<Rightarrow> world" where
  "run as w = fold step as w"

text \<open>The process right after start: nothing connected, registered or called yet.\<close>

definition fresh :: "string option \<Rightarrow> string option \<Rightarrow> world" where
  "fresh u e =
     \<lparr> isConnected = False, connectionPromise = None, MONGODB_URI = u, NODE_ENV = e,
       readyState = 0, connection_host = None, connection_port = None, connection_name = None,
       connection_db = False, connection_listeners = [], process_listeners = [],
       connect_calls = [], settled = [], disconnect_calls = 0, ping_calls = 0,
       waiting = [], results = [], closing = 0 \<rparr>"

text \<open>
  What the client does during an attempt that succeeds: the connection becomes ready, the
  connected notification goes out, and promise \<open>p\<close> fulfils with the mongoose object.
\<close>

definition established :: "promise \<Rightarrow> client_event list" where
  "established p = [ReadyState 1, Emits EvConnected, Settles p (Inr mongoose)]"

subsection \<open>Predicates used in the statements and proofs\<close>

text \<open>A URI that \<open>getConfig\<close> refuses: absent, or without one of the two schemes.\<close>

definition unconfigured :: "string option \<Rightarrow> bool" where
  "unconfigured u =
     (case u of
        None \<Rightarrow> True
      | Some s \<Rightarrow> \<not> startsWith s ''mongodb+srv://'' \<and> \<not> startsWith s ''mongodb://'')"

text \<open>A manager that never got as far as an attempt.\<close>

definition idle :: "string option \<Rightarrow> world \<Rightarrow> bool" where
  "idle u w =
     (MONGODB_URI w = u \<and> connectionPromise w = None \<and> \<not> isConnected w
      \<and> connection_listeners w = [] \<and> process_listeners w = [] \<and> connect_calls w = []
      \<and> waiting w = [])"

text \<open>The number of calls of \<open>connect\<close> that have failed so far.\<close>

definition failures :: "world \<Rightarrow> nat" where
  "failures w = length (filter isl (results w))"

text \<open>
  \<open>closes\<close> marks the actions in which a \<open>disconnect\<close> closes the connection: the close
  primitive fulfils, for a whole call or for a suspended caller. A call of \<open>disconnect\<close>
  that finds nothing to close never looks at the outcome, so it is the same step with any
  outcome (lemma \<open>nothing_to_close\<close>). \<open>is_connect\<close> marks the calls of \<open>connect\<close>.
\<close>

fun closes :: "action \<Rightarrow> bool" where
  "closes (Disconnect out) = (out = Closed)"
| "closes (Client ev) = (ev = Closes Closed)"
| "closes (Connect evs) = (Closes Closed \<in> set evs)"
| "closes a = False"

fun is_connect :: "action \<Rightarrow> bool" where
  "is_connect (Connect evs) = True"
| "is_connect a = False"

text \<open>
  Relations between an earlier and a later world. \<open>undisturbed\<close>: what resumed callers of
  \<open>connect\<close> leave alone; no failure is taken back, and \<open>connectionPromise\<close> is as it was
  unless a call has failed in between. \<open>moved\<close>: what the client's moves and the callers they
  resume leave alone; a settled promise keeps its outcome. \<open>calm\<close> adds that
  \<open>connectionPromise\<close> is as it was unless a call has failed in between. \<open>later\<close>: settled
  promises keep their outcome and no failure is taken back.
\<close>

definition undisturbed :: "world \<Rightarrow> world \<Rightarrow> bool" where
  "undisturbed w v =
     (connect_calls v = connect_calls w \<and> connection_listeners v = connection_listeners w
      \<and> process_listeners v = process_listeners w \<and> MONGODB_URI v = MONGODB_URI w
      \<and> NODE_ENV v = NODE_ENV w \<and> settled v = settled w \<and> readyState v = readyState w
      \<and> closing v = closing w
      \<and> failures w \<le> failures v
      \<and> (failures v = failures w \<longrightarrow> connectionPromise v = connectionPromise w))"

definition moved :: "world \<Rightarrow> world \<Rightarrow> bool" where
  "moved w v =
     (connect_calls v = connect_calls w \<and> connection_listeners v = connection_listeners w
      \<and> process_listeners v = process_listeners w \<and> MONGODB_URI v = MONGODB_URI w
      \<and> NODE_ENV v = NODE_ENV w
      \<and> (\<forall>p x. map_of (settled w) p = Some x \<longrightarrow> map_of (settled v) p = Some x)
      \<and> failures w \<le> failures v)"

definition calm :: "world \<Rightarrow> world \<Rightarrow> bool" where
  "calm w v = (moved w v \<and> (failures v = failures w \<longrightarrow> connectionPromise v = connectionPromise w))"

definition later :: "world \<Rightarrow> world \<Rightarrow> bool" where
  "later w v =
     ((\<forall>p x. map_of (settled w) p = Some x \<longrightarrow> map_of (settled v) p = Some x)
      \<and> failures w \<le> failures v)"

text \<open>The manager holds promise \<open>p\<close>, and \<open>p\<close> has fulfilled with \<open>h\<close>.\<close>

definition held :: "promise \<Rightarrow> handle \<Rightarrow> world \<Rightarrow> bool" where
  "held p h w = (connectionPromise w = Some p \<and> map_of (settled w) p = Some (Inr h))"

text \<open>
  An attempt with promise \<open>p\<close> is under way: the manager holds \<open>p\<close>, \<open>p\<close> is pending, and the
  suspended callers are the one that started the attempt and \<open>n\<close> more that wait for \<open>p\<close>.
\<close>

definition pending_all :: "promise \<Rightarrow> nat \<Rightarrow> MongoConfig list \<Rightarrow> (error + handle) list \<Rightarrow> world \<Rightarrow> bool" where
  "pending_all p n cs rs w =
     (connectionPromise w = Some p \<and> p < length cs \<and> connect_calls w = cs \<and> results w = rs
      \<and> waiting w = (AwaitNew, p) # replicate n (AwaitExisting, p)
      \<and> map_of (settled w) p = None)"

lemmas eval_defs = connect_def connect_begin_def connect_resume_def connect_catch_def getConfig_def
  startsWith_def setupEventListeners_def mongoose_connect_def settle_def emit_def fresh_def
  established_def disconnect_def mongoose_disconnect_def ping_def ping_try_def run_def
  getConnectionStatus_def finish_def wake_def disconnect_resume_def disconnect_begin_def

section \<open>What resumed callers and the client's moves leave alone\<close>

lemma undisturbed_refl: "undisturbed w w"
  by (simp add: undisturbed_def)

lemma undisturbed_trans: "undisturbed w v \<Longrightarrow> undisturbed v u \<Longrightarrow> undisturbed w u"
  by (auto simp add: undisturbed_def)

lemma moved_refl: "moved w w"
  by (simp add: moved_def)

lemma moved_trans: "moved w v \<Longrightarrow> moved v u \<Longrightarrow> moved w u"
  by (auto simp add: moved_def)

lemma calm_refl: "calm w w"
  by (simp add: calm_def moved_refl)

lemma calm_trans: "calm w v \<Longrightarrow> calm v u \<Longrightarrow> calm w u"
  unfolding calm_def using moved_trans by (auto simp add: moved_def)

lemma undisturbed_calm: "undisturbed w v \<Longrightarrow> calm w v"
  by (simp add: undisturbed_def calm_def moved_def)

lemma calm_moved: "calm w v \<Longrightarrow> moved w v"
  by (simp add: calm_def)

lemma later_refl: "later w w"
  by (simp add: later_def)

lemma later_trans: "later w v \<Longrightarrow> later v u \<Longrightarrow> later w u"
  by (auto simp add: later_def)

lemma moved_later: "moved w v \<Longrightarrow> later w v"
  by (simp add: moved_def later_def)

text \<open>
  A lifecycle listener writes \<open>isConnected\<close> and nothing else. The second part of \<open>connect\<close>
  either finds its promise pending, or returns what the promise fulfilled with and changes
  nothing, or runs the catch block.
\<close>

lemma listener_frame: "\<exists>b. listener l w = w \<lparr> isConnected := b \<rparr>"
  by (cases l) auto

lemma fold_listener_frame: "\<exists>b. fold listener ls w = w \<lparr> isConnected := b \<rparr>"
proof (induction ls arbitrary: w)
  case Nil
  have "w = w \<lparr> isConnected := isConnected w \<rparr>" by simp
  then show ?case by (metis fold_simps(1))
next
  case (Cons l ls)
  obtain b where b: "listener l w = w \<lparr> isConnected := b \<rparr>"
    using listener_frame by blast
  obtain c where "fold listener ls (w \<lparr> isConnected := b \<rparr>) = w \<lparr> isConnected := b, isConnected := c \<rparr>"
    using Cons.IH by blast
  with b show ?case by auto
qed

lemma emit_frame: "\<exists>b. emit ev w = w \<lparr> isConnected := b \<rparr>"
  unfolding emit_def by (rule fold_listener_frame)

lemma connect_resume_cases:
  "connect_resume ap p w = (w, Awaiting ap p) \<and> map_of (settled w) p = None
   \<or> (\<exists>h. connect_resume ap p w = (w, Returned (Inr h)) \<and> map_of (settled w) p = Some (Inr h))
   \<or> (\<exists>e. connect_resume ap p w
           = (w \<lparr> isConnected := False, connectionPromise := None \<rparr>, Returned (Inl e)))"
  by (simp add: connect_resume_def connect_catch_def split: option.split sum.split await_point.split)

lemma connect_resume_outcome:
  assumes "map_of (settled w) p = Some out" and "isl out \<or> readyState w = 1"
  shows "snd (connect_resume ap p w) = Returned out"
  using assms
  by (cases out; cases ap) (simp_all add: connect_resume_def connect_catch_def)

lemma resumed_undisturbed: "undisturbed w (finish (connect_resume ap p w))"
  using connect_resume_cases [of ap p w]
  by (auto simp add: finish_def undisturbed_def failures_def)

lemma logged_undisturbed:
  "undisturbed w (fst (connect_resume ap p w) \<lparr> results := results (fst (connect_resume ap p w)) @ [r] \<rparr>)"
  if "snd (connect_resume ap p w) = Returned r"
  using connect_resume_cases [of ap p w] that
  by (auto simp add: undisturbed_def failures_def)

lemma fold_wake_undisturbed:
  "undisturbed v (fold (\<lambda>(ap, q) v. if q = p then finish (connect_resume ap q v) else v) ws v)"
proof (induction ws arbitrary: v)
  case Nil
  then show ?case by (simp add: undisturbed_refl)
next
  case (Cons x ws)
  obtain ap q where x: "x = (ap, q)" by (cases x)
  let ?f = "\<lambda>(ap, q) v. if q = p then finish (connect_resume ap q v) else v"
  let ?v = "if q = p then finish (connect_resume ap q v) else v"
  have one: "undisturbed v ?v"
    by (simp add: resumed_undisturbed undisturbed_refl)
  have rest: "undisturbed ?v (fold ?f ws ?v)"
    by (rule Cons.IH)
  have "fold ?f (x # ws) v = fold ?f ws ?v"
    unfolding x by simp
  with undisturbed_trans [OF one rest] show ?case
    by simp
qed

lemma wake_undisturbed: "undisturbed w (wake p w)"
proof -
  let ?w = "w \<lparr> waiting := filter (\<lambda>(ap, q). q \<noteq> p) (waiting w) \<rparr>"
  have "undisturbed w ?w"
    by (simp add: undisturbed_def failures_def)
  moreover have "undisturbed ?w (wake p w)"
    unfolding wake_def by (rule fold_wake_undisturbed)
  ultimately show ?thesis by (rule undisturbed_trans)
qed

lemma fold_wake_nobody:
  "\<forall>x \<in> set ws. snd x \<noteq> p \<Longrightarrow>
     fold (\<lambda>(ap, q) v. if q = p then finish (connect_resume ap q v) else v) ws v = v"
proof (induction ws arbitrary: v)
  case Nil
  then show ?case by simp
next
  case (Cons x ws)
  obtain ap q where x: "x = (ap, q)" by (cases x)
  with Cons.prems have "q \<noteq> p" by simp
  with x Cons show ?case by simp
qed

lemma wake_nobody:
  assumes "\<forall>x \<in> set (waiting w). snd x \<noteq> p"
  shows "wake p w = w"
proof -
  have "\<forall>x \<in> set (waiting w). (case x of (ap, q) \<Rightarrow> q \<noteq> p)"
    using assms by (simp add: case_prod_unfold)
  then have keep: "filter (\<lambda>(ap, q). q \<noteq> p) (waiting w) = waiting w"
    by (simp only: filter_id_conv)
  show ?thesis
    unfolding wake_def keep using fold_wake_nobody [OF assms] by simp
qed

lemma fold_wake_all:
  assumes "\<forall>x \<in> set ws. snd x = p" and "map_of (settled v) p = Some out"
    and "isl out \<or> readyState v = 1"
  shows "results (fold (\<lambda>(ap, q) v. if q = p then finish (connect_resume ap q v) else v) ws v)
           = results v @ replicate (length ws) out
     \<and> waiting (fold (\<lambda>(ap, q) v. if q = p then finish (connect_resume ap q v) else v) ws v)
           = waiting v"
  using assms
proof (induction ws arbitrary: v)
  case Nil
  then show ?case by simp
next
  case (Cons x ws)
  let ?f = "\<lambda>(ap, q) v. if q = p then finish (connect_resume ap q v) else v"
  obtain ap where x: "x = (ap, p)"
    using Cons.prems(1) by (cases x) simp
  let ?v = "finish (connect_resume ap p v)"
  have out: "snd (connect_resume ap p v) = Returned out"
    using Cons.prems(2,3) by (rule connect_resume_outcome)
  have u: "undisturbed v ?v"
    by (rule resumed_undisturbed)
  have res: "results ?v = results v @ [out] \<and> waiting ?v = waiting v"
    using out connect_resume_cases [of ap p v] by (auto simp add: finish_def)
  from u Cons.prems(2,3) have "map_of (settled ?v) p = Some out" and "isl out \<or> readyState ?v = 1"
    by (simp_all add: undisturbed_def)
  with Cons.prems(1)
  have "results (fold ?f ws ?v) = results ?v @ replicate (length ws) out
     \<and> waiting (fold ?f ws ?v) = waiting ?v"
    by (intro Cons.IH) simp_all
  moreover have "fold ?f (x # ws) v = fold ?f ws ?v"
    unfolding x by simp
  ultimately show ?case
    using res by (simp add: replicate_app_Cons_same)
qed

lemma settle_moved: "calm w (settle p out w)"
  by (auto simp add: settle_def calm_def moved_def failures_def map_add_Some_iff)

lemma client_moved: "moved w (client ev w)"
proof (cases ev)
  case (Emits e)
  obtain b where "emit e w = w \<lparr> isConnected := b \<rparr>"
    using emit_frame by blast
  with Emits show ?thesis by (simp add: moved_def failures_def)
next
  case (Settles p out)
  have "calm (settle p out w) (wake p (settle p out w))"
    by (rule undisturbed_calm [OF wake_undisturbed])
  with settle_moved [of w p out] have "calm w (wake p (settle p out w))"
    by (rule calm_trans)
  with Settles show ?thesis by (simp add: calm_moved)
next
  case (Closes out)
  then show ?thesis
    by (cases out) (simp_all add: moved_def failures_def disconnect_resume_def)
qed (simp_all add: moved_def failures_def)

lemma client_calm:
  assumes "ev \<noteq> Closes Closed"
  shows "calm w (client ev w)"
proof (cases ev)
  case (Emits e)
  obtain b where "emit e w = w \<lparr> isConnected := b \<rparr>"
    using emit_frame by blast
  with Emits show ?thesis by (simp add: calm_def moved_def failures_def)
next
  case (Settles p out)
  have "calm (settle p out w) (wake p (settle p out w))"
    by (rule undisturbed_calm [OF wake_undisturbed])
  with settle_moved [of w p out] have "calm w (wake p (settle p out w))"
    by (rule calm_trans)
  with Settles show ?thesis by simp
next
  case (Closes out)
  with assms show ?thesis
    by (cases out) (simp_all add: calm_def moved_def failures_def disconnect_resume_def)
qed (simp_all add: calm_def moved_def failures_def)

lemma clients_moved: "moved w (fold client evs w)"
proof (induction evs arbitrary: w)
  case Nil
  then show ?case by (simp add: moved_refl)
next
  case (Cons ev evs)
  from client_moved [of w ev] Cons.IH [of "client ev w"] show ?case
    by (simp add: moved_trans)
qed

lemma clients_calm:
  assumes "Closes Closed \<notin> set evs"
  shows "calm w (fold client evs w)"
  using assms
proof (induction evs arbitrary: w)
  case Nil
  then show ?case by (simp add: calm_refl)
next
  case (Cons ev evs)
  then have "calm w (client ev w)" and "calm (client ev w) (fold client evs (client ev w))"
    by (auto intro: client_calm)
  then show ?case
    using calm_trans by simp
qed

text \<open>The first part of \<open>connect\<close> either starts an attempt or changes at most its own two fields.\<close>

lemma connect_begin_cached:
  "connectionPromise w = Some p \<Longrightarrow> connect_begin w = (w, Awaiting AwaitExisting p)"
  by (simp add: connect_begin_def)

lemma connect_begin_new:
  assumes "connectionPromise w = None" and "\<not> (isConnected w \<and> readyState w = 1)"
    and "getConfig w = Inr cfg"
  shows "connect_begin w =
           ((setupEventListeners w) \<lparr> connect_calls := connect_calls w @ [cfg],
               connectionPromise := Some (length (connect_calls w)) \<rparr>,
            Awaiting AwaitNew (length (connect_calls w)))"
  using assms by (simp add: connect_begin_def mongoose_connect_def setupEventListeners_def)

lemma connect_begin_old:
  assumes "connectionPromise w \<noteq> None \<or> (isConnected w \<and> readyState w = 1) \<or> getConfig w = Inl e"
  shows "\<exists>b q s. connect_begin w = (w \<lparr> isConnected := b, connectionPromise := q \<rparr>, s)"
proof -
  have same: "w = w \<lparr> isConnected := isConnected w, connectionPromise := connectionPromise w \<rparr>"
    by simp
  show ?thesis
  proof (cases "connectionPromise w")
    case (Some p)
    then have "connect_begin w = (w, Awaiting AwaitExisting p)"
      by (simp add: connect_begin_def)
    with same show ?thesis by metis
  next
    case None
    show ?thesis
    proof (cases "isConnected w \<and> readyState w = 1")
      case True
      with None have "connect_begin w = (w, Returned (Inr mongoose))"
        by (simp add: connect_begin_def)
      with same show ?thesis by metis
    next
      case False
      with None assms have "getConfig w = Inl e" by blast
      with None False have "connect_begin w =
          (w \<lparr> isConnected := False, connectionPromise := None \<rparr>, Returned (Inl e))"
        by (simp add: connect_begin_def connect_catch_def)
      then show ?thesis by blast
    qed
  qed
qed

lemma connect_begin_later: "later w (fst (connect_begin w))"
proof (cases "connectionPromise w = None \<and> \<not> (isConnected w \<and> readyState w = 1)
               \<and> (\<exists>cfg. getConfig w = Inr cfg)")
  case True
  then obtain cfg where "getConfig w = Inr cfg" by blast
  with True show ?thesis
    by (simp add: connect_begin_new setupEventListeners_def later_def failures_def)
next
  case False
  then have "connectionPromise w \<noteq> None \<or> (isConnected w \<and> readyState w = 1)
             \<or> (\<exists>e. getConfig w = Inl e)"
    by (cases "getConfig w") auto
  then obtain b q s where "connect_begin w = (w \<lparr> isConnected := b, connectionPromise := q \<rparr>, s)"
    using connect_begin_old [of w] by blast
  then show ?thesis by (simp add: later_def failures_def)
qed

lemma connect_await_calm:
  assumes "Closes Closed \<notin> set evs"
  shows "calm w (fst (connect_await ap p evs w))"
  using assms
proof (induction evs arbitrary: w)
  case Nil
  show ?case
    using undisturbed_calm [OF resumed_undisturbed [of w ap p]] by simp
next
  case (Cons ev evs)
  obtain w1 s where r: "connect_resume ap p w = (w1, s)"
    by (cases "connect_resume ap p w")
  show ?case
  proof (cases s)
    case (Returned x)
    with r have "undisturbed w (w1 \<lparr> results := results w1 @ [x] \<rparr>)"
      using logged_undisturbed [of ap p w x] by simp
    then have "calm w (w1 \<lparr> results := results w1 @ [x] \<rparr>)"
      by (rule undisturbed_calm)
    moreover have "calm (w1 \<lparr> results := results w1 @ [x] \<rparr>)
        (fold client (ev # evs) (w1 \<lparr> results := results w1 @ [x] \<rparr>))"
      using Cons.prems by (rule clients_calm)
    ultimately have "calm w (fold client (ev # evs) (w1 \<lparr> results := results w1 @ [x] \<rparr>))"
      by (rule calm_trans)
    with r Returned show ?thesis by simp
  next
    case (Awaiting ap1 p1)
    with r have same: "w1 = w"
      using connect_resume_cases [of ap p w] by auto
    from Cons.prems have "calm w (client ev w)"
      by (auto intro: client_calm)
    moreover from Cons.prems have "calm (client ev w) (fst (connect_await ap p evs (client ev w)))"
      by (auto intro: Cons.IH)
    ultimately have "calm w (fst (connect_await ap p evs (client ev w)))"
      by (rule calm_trans)
    with r Awaiting same show ?thesis by simp
  qed
qed

lemma connect_await_moved: "moved w (fst (connect_await ap p evs w))"
proof (induction evs arbitrary: w)
  case Nil
  show ?case
    using calm_moved [OF undisturbed_calm [OF resumed_undisturbed [of w ap p]]] by simp
next
  case (Cons ev evs)
  obtain w1 s where r: "connect_resume ap p w = (w1, s)"
    by (cases "connect_resume ap p w")
  show ?case
  proof (cases s)
    case (Returned x)
    with r have "undisturbed w (w1 \<lparr> results := results w1 @ [x] \<rparr>)"
      using logged_undisturbed [of ap p w x] by simp
    then have "moved w (w1 \<lparr> results := results w1 @ [x] \<rparr>)"
      using calm_moved undisturbed_calm by blast
    moreover have "moved (w1 \<lparr> results := results w1 @ [x] \<rparr>)
        (fold client (ev # evs) (w1 \<lparr> results := results w1 @ [x] \<rparr>))"
      by (rule clients_moved)
    ultimately have "moved w (fold client (ev # evs) (w1 \<lparr> results := results w1 @ [x] \<rparr>))"
      by (rule moved_trans)
    with r Returned show ?thesis by simp
  next
    case (Awaiting ap1 p1)
    with r have same: "w1 = w"
      using connect_resume_cases [of ap p w] by auto
    have "moved w (client ev w)"
      by (rule client_moved)
    moreover have "moved (client ev w) (fst (connect_await ap p evs (client ev w)))"
      by (rule Cons.IH)
    ultimately have "moved w (fst (connect_await ap p evs (client ev w)))"
      by (rule moved_trans)
    with r Awaiting same show ?thesis by simp
  qed
qed

lemma connect_moved: "moved (fst (connect_begin w)) (fst (connect evs w))"
proof (cases "connect_begin w")
  case (Pair w1 s)
  show ?thesis
  proof (cases s)
    case (Returned r)
    have "moved w1 (w1 \<lparr> results := results w1 @ [r] \<rparr>)"
      by (simp add: moved_def failures_def)
    moreover have "moved (w1 \<lparr> results := results w1 @ [r] \<rparr>)
        (fold client evs (w1 \<lparr> results := results w1 @ [r] \<rparr>))"
      by (rule clients_moved)
    ultimately show ?thesis
      using Pair Returned moved_trans by (simp add: connect_def)
  next
    case (Awaiting ap p)
    with Pair show ?thesis
      by (simp add: connect_def connect_await_moved)
  qed
qed

lemma connect_later: "later w (fst (connect evs w))"
  using connect_begin_later [of w] moved_later [OF connect_moved [of w evs]]
  by (rule later_trans)

lemma connect_calm:
  assumes "connectionPromise w = Some p" and "Closes Closed \<notin> set evs"
  shows "calm w (fst (connect evs w))"
  using assms by (simp add: connect_def connect_begin_cached connect_await_calm)

lemma connect_await_result:
  assumes "snd (connect_await ap p evs w) = Returned (Inr h)"
  shows "map_of (settled (fst (connect_await ap p evs w))) p = Some (Inr h)"
  using assms
proof (induction evs arbitrary: w)
  case Nil
  then have "snd (connect_resume ap p w) = Returned (Inr h)" by simp
  then have "map_of (settled w) p = Some (Inr h)"
    using connect_resume_cases [of ap p w] by auto
  moreover have "settled (finish (connect_resume ap p w)) = settled w"
    using resumed_undisturbed [of w ap p] by (simp add: undisturbed_def)
  ultimately show ?case by simp
next
  case (Cons ev evs)
  obtain w1 s where r: "connect_resume ap p w = (w1, s)"
    by (cases "connect_resume ap p w")
  show ?case
  proof (cases s)
    case (Returned x)
    with r Cons.prems have x: "x = Inr h" by simp
    with r Returned have "map_of (settled w) p = Some (Inr h)"
      using connect_resume_cases [of ap p w] by auto
    moreover have "moved w (fst (connect_await ap p (ev # evs) w))"
      by (rule connect_await_moved)
    ultimately show ?thesis
      by (simp add: moved_def)
  next
    case (Awaiting ap1 p1)
    with r have same: "w1 = w"
      using connect_resume_cases [of ap p w] by auto
    with r Awaiting Cons.prems have "snd (connect_await ap p evs (client ev w)) = Returned (Inr h)"
      by simp
    then have "map_of (settled (fst (connect_await ap p evs (client ev w)))) p = Some (Inr h)"
      by (rule Cons.IH)
    with r Awaiting same show ?thesis by simp
  qed
qed

lemma connect_held:
  assumes "held p h w"
  shows "connect evs w = (fold client evs (w \<lparr> results := results w @ [Inr h] \<rparr>), Returned (Inr h))"
proof -
  from assms have b: "connect_begin w = (w, Awaiting AwaitExisting p)"
    and r: "connect_resume AwaitExisting p w = (w, Returned (Inr h))"
    by (simp_all add: held_def connect_begin_cached connect_resume_def)
  show ?thesis
    by (cases evs) (simp_all add: connect_def b r finish_def)
qed

text \<open>
  The whole call of \<open>disconnect\<close> is its first part followed at once by the client's move
  that settles the close.
\<close>

lemma disconnect_split:
  assumes "closing w = 0 \<or> readyState w \<noteq> 0"
  shows "client (Closes out) (disconnect_begin w) = fst (disconnect out w)"
  using assms
  by (cases out)
    (auto simp add: disconnect_begin_def disconnect_def mongoose_disconnect_def disconnect_resume_def)

lemma nothing_to_close:
  "(readyState w = 0 \<longrightarrow> step (Disconnect out) w = w)
   \<and> (closing w = 0 \<longrightarrow> client (Closes out) w = w)"
  by (simp add: disconnect_def)

lemma step_later: "later w (step a w)"
proof (cases a)
  case (Connect evs)
  then show ?thesis by (simp add: connect_later)
next
  case (Disconnect out)
  then show ?thesis
    by (cases out) (simp_all add: later_def failures_def disconnect_def mongoose_disconnect_def)
next
  case Disconnecting
  then show ?thesis by (simp add: later_def failures_def disconnect_begin_def)
next
  case (Ping out)
  then show ?thesis
    by (cases out) (simp_all add: later_def failures_def ping_def ping_try_def)
next
  case GetConnectionStatus
  then show ?thesis by (simp add: later_def getConnectionStatus_def)
next
  case (Client ev)
  then show ?thesis by (simp add: moved_later client_moved)
qed

lemma run_later: "later w (run as w)"
  unfolding run_def
proof (induction as arbitrary: w)
  case Nil
  then show ?case by (simp add: later_refl)
next
  case (Cons a as)
  from step_later [of w a] Cons.IH [of "step a w"] show ?case
    by (simp add: later_trans)
qed

lemma step_calm:
  assumes "connectionPromise w = Some p" and "\<not> closes a"
  shows "calm w (step a w)"
proof (cases a)
  case (Connect evs)
  with assms show ?thesis by (simp add: connect_calm)
next
  case (Disconnect out)
  with assms obtain e where "out = CloseFailed e"
    by (cases out) auto
  with Disconnect show ?thesis
    by (simp add: calm_def moved_def failures_def disconnect_def mongoose_disconnect_def)
next
  case Disconnecting
  then show ?thesis by (simp add: calm_def moved_def failures_def disconnect_begin_def)
next
  case (Ping out)
  then show ?thesis
    by (cases out) (simp_all add: calm_def moved_def failures_def ping_def ping_try_def)
next
  case GetConnectionStatus
  then show ?thesis by (simp add: calm_refl getConnectionStatus_def)
next
  case (Client ev)
  with assms show ?thesis by (simp add: client_calm)
qed

lemma run_kept:
  assumes "connectionPromise w = Some p" and "\<forall>a \<in> set as. \<not> closes a"
    and "failures (run as w) = failures w"
  shows "connectionPromise (run as w) = Some p \<and> connect_calls (run as w) = connect_calls w"
  using assms
proof (induction as arbitrary: w)
  case Nil
  then show ?case by (simp add: run_def)
next
  case (Cons a as)
  have r: "run (a # as) w = run as (step a w)"
    by (simp add: run_def)
  have c: "calm w (step a w)"
    using Cons.prems(1,2) by (auto intro: step_calm)
  have "failures w \<le> failures (step a w)"
    using step_later [of w a] by (simp add: later_def)
  moreover have "failures (step a w) \<le> failures (run as (step a w))"
    using run_later [of "step a w" as] by (simp add: later_def)
  ultimately have f1: "failures (step a w) = failures w"
    and f2: "failures (run as (step a w)) = failures (step a w)"
    using Cons.prems(3) r by simp_all
  from c f1 Cons.prems(1) have p: "connectionPromise (step a w) = Some p"
    and k: "connect_calls (step a w) = connect_calls w"
    by (simp_all add: calm_def moved_def)
  from Cons.IH [OF p _ f2] Cons.prems(2) k r show ?case
    by simp
qed

section \<open>ping\<close>

text \<open>
  C6. In every state and whatever the probe does, \<open>ping\<close> returns a boolean and never an
  error. When \<open>isConnected\<close> is false it returns false and leaves the world as it was, so no
  probe is issued. When the probe fails, or \<open>mongoose.connection.db\<close> is undefined, it returns
  false.
\<close>

theorem ping_never_throws:
  "(\<exists>b. snd (ping out w) = Inr b)
   \<and> (\<not> isConnected w \<longrightarrow> ping out w = (w, Inr False))
   \<and> snd (ping (ProbeFailed e) w) = Inr False
   \<and> (\<not> connection_db w \<longrightarrow> snd (ping out w) = Inr False
        \<and> ping_calls (fst (ping out w)) = ping_calls w)"
  by (cases out) (auto simp add: ping_def ping_try_def)

theorem ping_never_throws_witness:
  "\<not> isConnected (fresh None None)
   \<and> ping (ProbeFailed (ClientError 7)) (fresh None None) = (fresh None None, Inr False)
   \<and> snd (ping (ProbeFailed (ClientError 7))
            ((fresh None None) \<lparr> isConnected := True, connection_db := True \<rparr>)) = Inr False"
  using ping_never_throws [of "ProbeFailed (ClientError 7)" "fresh None None" "ClientError 7"]
    ping_never_throws [of "ProbeFailed (ClientError 7)"
      "(fresh None None) \<lparr> isConnected := True, connection_db := True \<rparr>" "ClientError 7"]
  by (simp add: fresh_def)

section \<open>getConnectionStatus\<close>

text \<open>
  C7. \<open>getConnectionStatus\<close> awaits nothing (it takes no outcome of a client primitive and
  returns at once), hands the world back exactly as it found it, so neither \<open>isConnected\<close>
  nor \<open>connectionPromise\<close> nor the connection changes, and its snapshot holds the flag, the
  ready state with its name, and the host, port and database name the connection has (each
  absent when the connection has none).
\<close>

theorem getConnectionStatus_snapshot:
  "fst (getConnectionStatus w) = w
   \<and> status_isConnected (snd (getConnectionStatus w)) = isConnected w
   \<and> status_readyState (snd (getConnectionStatus w)) = readyState w
   \<and> readyStateString (snd (getConnectionStatus w)) =
       (if readyState w = 0 then ''disconnected'' else if readyState w = 1 then ''connected''
        else if readyState w = 2 then ''connecting''
        else if readyState w = 3 then ''disconnecting'' else ''unknown'')
   \<and> status_host (snd (getConnectionStatus w)) = connection_host w
   \<and> status_port (snd (getConnectionStatus w)) = connection_port w
   \<and> status_database (snd (getConnectionStatus w)) = connection_name w"
  by (simp add: getConnectionStatus_def readyStates_def)

section \<open>disconnect\<close>

text \<open>
  C9. When the close primitive is invoked and fails, \<open>disconnect\<close> returns that very error,
  and the only thing that differs afterwards is the log of close calls: \<open>isConnected\<close> and
  \<open>connectionPromise\<close> have the values they had before, so a manager that reported itself
  connected still does.
\<close>

theorem disconnect_close_failure:
  assumes "readyState w \<noteq> 0"
  shows "disconnect (CloseFailed e) w = (w \<lparr> disconnect_calls := Suc (disconnect_calls w) \<rparr>, Inl e)
         \<and> isConnected (fst (disconnect (CloseFailed e) w)) = isConnected w
         \<and> connectionPromise (fst (disconnect (CloseFailed e) w)) = connectionPromise w"
  using assms by (simp add: disconnect_def mongoose_disconnect_def)

theorem disconnect_close_failure_witness:
  "readyState ((fresh None None) \<lparr> isConnected := True, connectionPromise := Some 0, readyState := 1 \<rparr>) \<noteq> 0
   \<and> snd (disconnect (CloseFailed (ClientError 3))
        ((fresh None None) \<lparr> isConnected := True, connectionPromise := Some 0, readyState := 1 \<rparr>))
       = Inl (ClientError 3)
   \<and> isConnected (fst (disconnect (CloseFailed (ClientError 3))
        ((fresh None None) \<lparr> isConnected := True, connectionPromise := Some 0, readyState := 1 \<rparr>)))
   \<and> connectionPromise (fst (disconnect (CloseFailed (ClientError 3))
        ((fresh None None) \<lparr> isConnected := True, connectionPromise := Some 0, readyState := 1 \<rparr>)))
       = Some 0"
  using disconnect_close_failure [of
      "(fresh None None) \<lparr> isConnected := True, connectionPromise := Some 0, readyState := 1 \<rparr>"
      "ClientError 3"]
  by (simp add: fresh_def)




section \<open>connect: the configuration\<close>

lemma getConfig_unconfigured:
  assumes "unconfigured (MONGODB_URI w)"
  shows "getConfig w = Inl (if MONGODB_URI w = None \<or> MONGODB_URI w = Some [] then UriRequired else UriInvalid)"
  using assms by (auto simp add: getConfig_def unconfigured_def split: option.splits)

lemma idle_same:
  "idle u w \<Longrightarrow> w \<lparr> isConnected := False, connectionPromise := None \<rparr> = w"
  by (simp add: idle_def)

lemma connect_begin_unconfigured:
  assumes "unconfigured (MONGODB_URI w)" and "connectionPromise w = None"
    and "\<not> (isConnected w \<and> readyState w = 1)"
  shows "connect_begin w =
     (w \<lparr> isConnected := False, connectionPromise := None \<rparr>,
      Returned (Inl (if MONGODB_URI w = None \<or> MONGODB_URI w = Some [] then UriRequired else UriInvalid)))"
  using assms(2,3) getConfig_unconfigured [OF assms(1)]
  by (simp add: connect_begin_def connect_catch_def)

lemma client_idle:
  assumes "idle u w"
  shows "idle u (client ev w)"
proof (cases ev)
  case (Emits e)
  with assms show ?thesis by (simp add: idle_def emit_def)
next
  case (Settles p out)
  from assms have "settle p out w = w"
    by (simp add: idle_def settle_def)
  moreover from assms have "wake p w = w"
    by (intro wake_nobody) (simp add: idle_def)
  ultimately show ?thesis
    using Settles assms by simp
next
  case (Closes out)
  with assms show ?thesis
    by (cases out) (simp_all add: idle_def disconnect_resume_def)
qed (use assms in \<open>simp_all add: idle_def\<close>)

lemma clients_idle: "idle u w \<Longrightarrow> idle u (fold client evs w)"
  by (induction evs arbitrary: w) (simp_all add: client_idle)

lemma connect_idle:
  assumes "unconfigured u" and "idle u w"
  shows "idle u (fst (connect evs w))
     \<and> snd (connect evs w) = Returned (Inl (if u = None \<or> u = Some [] then UriRequired else UriInvalid))"
proof -
  from assms(2) have uri: "MONGODB_URI w = u"
    and same: "w \<lparr> isConnected := False, connectionPromise := None \<rparr> = w"
    by (simp_all add: idle_def)
  from assms have "connect_begin w =
     (w \<lparr> isConnected := False, connectionPromise := None \<rparr>,
      Returned (Inl (if MONGODB_URI w = None \<or> MONGODB_URI w = Some [] then UriRequired else UriInvalid)))"
    by (intro connect_begin_unconfigured) (simp_all add: idle_def)
  then have b: "connect_begin w =
     (w, Returned (Inl (if u = None \<or> u = Some [] then UriRequired else UriInvalid)))"
    unfolding uri same .
  have "idle u (w \<lparr> results := results w @ [r] \<rparr>)" for r
    using assms(2) by (simp add: idle_def)
  then show ?thesis
    by (simp add: connect_def b clients_idle)
qed

lemma step_idle:
  assumes "unconfigured u" and "idle u w"
  shows "idle u (step a w)"
proof (cases a)
  case (Connect evs)
  with connect_idle [OF assms, of evs] show ?thesis by simp
next
  case (Disconnect out)
  with assms(2) show ?thesis
    by (cases out) (simp_all add: idle_def disconnect_def mongoose_disconnect_def)
next
  case Disconnecting
  with assms(2) show ?thesis by (simp add: idle_def disconnect_begin_def)
next
  case (Ping out)
  with assms(2) show ?thesis
    by (simp add: idle_def ping_def ping_try_def)
next
  case GetConnectionStatus
  with assms(2) show ?thesis by (simp add: getConnectionStatus_def)
next
  case (Client ev)
  with assms(2) show ?thesis by (simp add: client_idle)
qed

lemma run_idle:
  assumes "unconfigured u" and "idle u w"
  shows "idle u (run as w)"
  using assms(2) unfolding run_def
  by (induction as arbitrary: w) (simp_all add: step_idle [OF assms(1)])

text \<open>
  C4, as the specification has it, fails: after a successful \<open>connect\<close> the URI is taken out
  of the environment, and the next \<open>connect\<close> finds the promise it holds and returns the
  mongoose object, without a look at the configuration.
\<close>

theorem connect_without_uri_counterexample:
  "MONGODB_URI (fst (connect (established 0) (fresh (Some ''mongodb://a.example/shop'') None))
       \<lparr> MONGODB_URI := None \<rparr>) = None
   \<and> connectionPromise (fst (connect (established 0) (fresh (Some ''mongodb://a.example/shop'') None))
       \<lparr> MONGODB_URI := None \<rparr>) = Some 0
   \<and> snd (connect [] (fst (connect (established 0) (fresh (Some ''mongodb://a.example/shop'') None))
       \<lparr> MONGODB_URI := None \<rparr>)) = Returned (Inr mongoose)"
  by (simp add: eval_defs)

text \<open>
  C4, amended. Let the URI of the environment be absent, or start with neither
  \<open>mongodb+srv://\<close> nor \<open>mongodb://\<close>. A call of \<open>connect\<close> that gets as far as the
  configuration, because the manager holds no promise and is not both connected and at ready
  state 1, fails with the configuration error (the first message for an absent or empty URI,
  the second otherwise), calls no \<open>mongoose.connect\<close> and registers nothing. In a process
  that starts with such a URI and keeps it, every call of \<open>connect\<close> is such a call, after
  any run of calls and client moves: it fails with that error, \<open>mongoose.connect\<close> has never
  been called and nothing is registered.
\<close>

theorem connect_rejects_unconfigured:
  assumes "u = None \<or> (\<exists>s. u = Some s \<and> \<not> startsWith s ''mongodb+srv://'' \<and> \<not> startsWith s ''mongodb://'')"
  shows "(\<forall>w. MONGODB_URI w = u \<and> connectionPromise w = None \<and> \<not> (isConnected w \<and> readyState w = 1)
           \<longrightarrow> snd (connect evs w)
                   = Returned (Inl (if u = None \<or> u = Some [] then UriRequired else UriInvalid))
               \<and> connect_calls (fst (connect evs w)) = connect_calls w
               \<and> connection_listeners (fst (connect evs w)) = connection_listeners w
               \<and> process_listeners (fst (connect evs w)) = process_listeners w)
     \<and> snd (connect evs (run as (fresh u env)))
           = Returned (Inl (if u = None \<or> u = Some [] then UriRequired else UriInvalid))
     \<and> connect_calls (fst (connect evs (run as (fresh u env)))) = []
     \<and> connection_listeners (fst (connect evs (run as (fresh u env)))) = []
     \<and> process_listeners (fst (connect evs (run as (fresh u env)))) = []"
proof -
  from assms have un: "unconfigured u"
    by (auto simp add: unconfigured_def)
  have "idle u (fresh u env)"
    by (simp add: idle_def fresh_def)
  with un have "idle u (run as (fresh u env))"
    by (rule run_idle)
  with un have reach: "idle u (fst (connect evs (run as (fresh u env))))
     \<and> snd (connect evs (run as (fresh u env)))
         = Returned (Inl (if u = None \<or> u = Some [] then UriRequired else UriInvalid))"
    by (rule connect_idle)
  have "snd (connect evs w)
           = Returned (Inl (if u = None \<or> u = Some [] then UriRequired else UriInvalid))
        \<and> connect_calls (fst (connect evs w)) = connect_calls w
        \<and> connection_listeners (fst (connect evs w)) = connection_listeners w
        \<and> process_listeners (fst (connect evs w)) = process_listeners w"
    if w: "MONGODB_URI w = u \<and> connectionPromise w = None \<and> \<not> (isConnected w \<and> readyState w = 1)" for w
  proof -
    let ?e = "if u = None \<or> u = Some [] then UriRequired else UriInvalid"
    from w un have b: "connect_begin w =
        (w \<lparr> isConnected := False, connectionPromise := None \<rparr>, Returned (Inl ?e))"
      using connect_begin_unconfigured [of w] by auto
    then have "snd (connect evs w) = Returned (Inl ?e)"
      by (simp add: connect_def)
    moreover have "moved (w \<lparr> isConnected := False, connectionPromise := None \<rparr>) (fst (connect evs w))"
      using connect_moved [of w evs] b by simp
    ultimately show ?thesis
      by (simp add: moved_def)
  qed
  with reach show ?thesis
    by (simp add: idle_def)
qed

theorem connect_rejects_unconfigured_witness:
  "\<not> startsWith ''postgres://db.example/shop'' ''mongodb+srv://''
   \<and> \<not> startsWith ''postgres://db.example/shop'' ''mongodb://''
   \<and> snd (connect [] ((fresh (Some ''postgres://db.example/shop'') None) \<lparr> readyState := 1 \<rparr>))
       = Returned (Inl UriInvalid)
   \<and> connect_calls (fst (connect [] ((fresh (Some ''postgres://db.example/shop'') None) \<lparr> readyState := 1 \<rparr>)))
       = []
   \<and> snd (connect [] (run [Client (ReadyState 1), Client (Emits EvConnected), Disconnect Closed]
              (fresh (Some ''postgres://db.example/shop'') None))) = Returned (Inl UriInvalid)
   \<and> connect_calls (fst (connect [] (run [Client (ReadyState 1), Client (Emits EvConnected), Disconnect Closed]
              (fresh (Some ''postgres://db.example/shop'') None)))) = []
   \<and> connection_listeners (fst (connect [] (run [Client (ReadyState 1), Client (Emits EvConnected), Disconnect Closed]
              (fresh (Some ''postgres://db.example/shop'') None)))) = []
   \<and> process_listeners (fst (connect [] (run [Client (ReadyState 1), Client (Emits EvConnected), Disconnect Closed]
              (fresh (Some ''postgres://db.example/shop'') None)))) = []"
proof -
  have bad: "Some ''postgres://db.example/shop'' = None
      \<or> (\<exists>s. Some ''postgres://db.example/shop'' = Some s
            \<and> \<not> startsWith s ''mongodb+srv://'' \<and> \<not> startsWith s ''mongodb://'')"
    by (simp add: startsWith_def)
  from connect_rejects_unconfigured [OF bad,
      of "[]" "[Client (ReadyState 1), Client (Emits EvConnected), Disconnect Closed]" None]
  show ?thesis
    by (simp add: startsWith_def eval_defs)
qed

text \<open>
  C3, as the specification has it, fails: the configuration is not kept. After a first
  successful \<open>connect\<close> and a \<open>disconnect\<close>, the environment's URI is changed, and the next
  \<open>connect\<close> hands the new URI to \<open>mongoose.connect\<close>.
\<close>

theorem config_not_cached_counterexample:
  "snd (connect (established 0) (fresh (Some ''mongodb://a.example/shop'') None))
     = Returned (Inr mongoose)
   \<and> map uri (connect_calls (run [Connect (established 0), Disconnect Closed]
        (fresh (Some ''mongodb://a.example/shop'') None))) = [''mongodb://a.example/shop'']
   \<and> snd (connect (established 1)
        ((run [Connect (established 0), Disconnect Closed]
           (fresh (Some ''mongodb://a.example/shop'') None))
         \<lparr> MONGODB_URI := Some ''mongodb://b.example/shop'' \<rparr>)) = Returned (Inr mongoose)
   \<and> map uri (connect_calls (fst (connect (established 1)
        ((run [Connect (established 0), Disconnect Closed]
           (fresh (Some ''mongodb://a.example/shop'') None))
         \<lparr> MONGODB_URI := Some ''mongodb://b.example/shop'' \<rparr>))))
       = [''mongodb://a.example/shop'', ''mongodb://b.example/shop'']"
  by (simp add: eval_defs)

text \<open>
  C3, amended. The configuration is resolved anew by every call of \<open>connect\<close> that starts an
  attempt: the configuration handed to \<open>mongoose.connect\<close> is what \<open>getConfig\<close> yields in the
  environment of that call, its URI the current \<open>MONGODB_URI\<close> and its \<open>monitorCommands\<close> the
  current \<open>NODE_ENV\<close> compared with development. A call that finds a cached promise, or the
  manager connected with the client ready, reads no configuration: with any other
  environment it does the same and starts no attempt.
\<close>

theorem config_resolved_per_attempt:
  "(connect_calls (fst (connect_begin w)) \<noteq> connect_calls w \<longrightarrow>
      (\<exists>cfg. getConfig w = Inr cfg
         \<and> connect_calls (fst (connect_begin w)) = connect_calls w @ [cfg]
         \<and> MONGODB_URI w = Some (uri cfg)
         \<and> monitorCommands (options cfg) = (NODE_ENV w = Some ''development'')))
   \<and> (connectionPromise w \<noteq> None \<or> (isConnected w \<and> readyState w = 1) \<longrightarrow>
        connect_begin (w \<lparr> MONGODB_URI := u, NODE_ENV := e \<rparr>)
          = (fst (connect_begin w) \<lparr> MONGODB_URI := u, NODE_ENV := e \<rparr>, snd (connect_begin w))
        \<and> connect_calls (fst (connect_begin w)) = connect_calls w)"
proof -
  have first: "connect_calls (fst (connect_begin w)) \<noteq> connect_calls w \<longrightarrow>
      (\<exists>cfg. getConfig w = Inr cfg
         \<and> connect_calls (fst (connect_begin w)) = connect_calls w @ [cfg]
         \<and> MONGODB_URI w = Some (uri cfg)
         \<and> monitorCommands (options cfg) = (NODE_ENV w = Some ''development''))"
  proof (cases "connectionPromise w = None \<and> \<not> (isConnected w \<and> readyState w = 1)
               \<and> (\<exists>cfg. getConfig w = Inr cfg)")
    case True
    then obtain cfg where cfg: "getConfig w = Inr cfg" by blast
    then have "MONGODB_URI w = Some (uri cfg)
        \<and> monitorCommands (options cfg) = (NODE_ENV w = Some ''development'')"
      by (auto simp add: getConfig_def split: option.splits if_splits)
    with True cfg show ?thesis
      by (simp add: connect_begin_new)
  next
    case False
    then have "connectionPromise w \<noteq> None \<or> (isConnected w \<and> readyState w = 1)
               \<or> (\<exists>e. getConfig w = Inl e)"
      by (cases "getConfig w") auto
    then obtain b q s where "connect_begin w = (w \<lparr> isConnected := b, connectionPromise := q \<rparr>, s)"
      using connect_begin_old [of w] by blast
    then show ?thesis by simp
  qed
  have second: "connectionPromise w \<noteq> None \<or> (isConnected w \<and> readyState w = 1) \<longrightarrow>
        connect_begin (w \<lparr> MONGODB_URI := u, NODE_ENV := e \<rparr>)
          = (fst (connect_begin w) \<lparr> MONGODB_URI := u, NODE_ENV := e \<rparr>, snd (connect_begin w))
        \<and> connect_calls (fst (connect_begin w)) = connect_calls w"
    by (auto simp add: connect_begin_def split: option.splits)
  from first second show ?thesis by blast
qed

theorem config_resolved_per_attempt_witness:
  "connect_calls (fst (connect_begin (fresh (Some ''mongodb://a.example/shop'') (Some ''development''))))
     \<noteq> connect_calls (fresh (Some ''mongodb://a.example/shop'') (Some ''development''))
   \<and> map uri (connect_calls (fst (connect_begin (fresh (Some ''mongodb://a.example/shop'') (Some ''development'')))))
       = [''mongodb://a.example/shop'']
   \<and> map (\<lambda>c. monitorCommands (options c))
         (connect_calls (fst (connect_begin (fresh (Some ''mongodb://a.example/shop'') (Some ''development'')))))
       = [True]
   \<and> connectionPromise (fst (connect (established 0) (fresh (Some ''mongodb://a.example/shop'') None))) \<noteq> None
   \<and> snd (connect_begin
        (fst (connect (established 0) (fresh (Some ''mongodb://a.example/shop'') None))
          \<lparr> MONGODB_URI := None, NODE_ENV := Some ''test'' \<rparr>)) = Awaiting AwaitExisting 0
   \<and> connect_calls (fst (connect_begin
        (fst (connect (established 0) (fresh (Some ''mongodb://a.example/shop'') None))
          \<lparr> MONGODB_URI := None, NODE_ENV := Some ''test'' \<rparr>)))
       = connect_calls (fst (connect (established 0) (fresh (Some ''mongodb://a.example/shop'') None)))"
  using config_resolved_per_attempt
      [of "fresh (Some ''mongodb://a.example/shop'') (Some ''development'')" None None]
    config_resolved_per_attempt
      [of "fst (connect (established 0) (fresh (Some ''mongodb://a.example/shop'') None))"
          None "Some ''test''"]
  by (simp add: eval_defs)

section \<open>connect: a successful attempt\<close>

text \<open>
  C2. On a freshly started process with a valid URI, the client connects, reports it and
  fulfils the promise. \<open>connect\<close> returns the mongoose object, the manager is connected and
  the client ready, and \<open>connectionPromise\<close> still holds the promise of the attempt, which has
  settled: the success path of \<open>connect\<close> has no assignment to it.
\<close>

theorem connect_success_keeps_promise:
  "snd (connect (established 0) (fresh (Some ''mongodb://a.example/shop'') None)) = Returned (Inr mongoose)
   \<and> isConnected (fst (connect (established 0) (fresh (Some ''mongodb://a.example/shop'') None)))
   \<and> readyState (fst (connect (established 0) (fresh (Some ''mongodb://a.example/shop'') None))) = 1
   \<and> connectionPromise (fst (connect (established 0) (fresh (Some ''mongodb://a.example/shop'') None))) = Some 0
   \<and> map_of (settled (fst (connect (established 0) (fresh (Some ''mongodb://a.example/shop'') None)))) 0
        = Some (Inr mongoose)"
  by (simp add: eval_defs)

section \<open>connect: callers at the same time\<close>

lemma client_window:
  assumes "pending_all p n cs rs w" and "ev \<noteq> Closes Closed"
    and "map_of (settled (client ev w)) p = None"
  shows "pending_all p n cs rs (client ev w)"
proof (cases ev)
  case (Emits e)
  obtain b where "emit e w = w \<lparr> isConnected := b \<rparr>"
    using emit_frame by blast
  with Emits assms(1) show ?thesis by (simp add: pending_all_def)
next
  case (Settles q out)
  have s: "settled (wake q (settle q out w)) = settled (settle q out w)"
    using wake_undisturbed [of "settle q out w" q] by (simp add: undisturbed_def)
  have "q \<noteq> p"
  proof
    assume "q = p"
    with assms(1) have "map_of (settled (settle q out w)) p = Some out"
      by (simp add: pending_all_def settle_def map_add_def)
    with s Settles assms(3) show False by simp
  qed
  with assms(1) have "\<forall>x \<in> set (waiting (settle q out w)). snd x \<noteq> q"
    by (auto simp add: pending_all_def settle_def)
  then have "wake q (settle q out w) = settle q out w"
    by (rule wake_nobody)
  with Settles have c: "client ev w = settle q out w" by simp
  with assms(3) have "map_of (settled (settle q out w)) p = None" by simp
  with assms(1) c show ?thesis
    by (simp add: pending_all_def settle_def)
next
  case (Closes out)
  with assms(2) obtain e where "out = CloseFailed e"
    by (cases out) auto
  with Closes assms(1) show ?thesis
    by (simp add: pending_all_def disconnect_resume_def)
qed (use assms(1) in \<open>simp_all add: pending_all_def\<close>)

lemma connect_await_window:
  assumes "pending_all p n cs rs w" and "Closes Closed \<notin> set evs"
    and "map_of (settled (fst (connect_await AwaitExisting p evs w))) p = None"
  shows "pending_all p (Suc n) cs rs (fst (connect_await AwaitExisting p evs w))"
  using assms
proof (induction evs arbitrary: w)
  case Nil
  then have "connect_resume AwaitExisting p w = (w, Awaiting AwaitExisting p)"
    by (simp add: pending_all_def connect_resume_def)
  with Nil.prems(1) show ?case
    by (simp add: pending_all_def finish_def replicate_append_same)
next
  case (Cons ev evs)
  from Cons.prems(1) have r: "connect_resume AwaitExisting p w = (w, Awaiting AwaitExisting p)"
    by (simp add: pending_all_def connect_resume_def)
  then have c: "connect_await AwaitExisting p (ev # evs) w
      = connect_await AwaitExisting p evs (client ev w)"
    by simp
  have "moved (client ev w) (fst (connect_await AwaitExisting p evs (client ev w)))"
    by (rule connect_await_moved)
  with Cons.prems(3) c have "map_of (settled (client ev w)) p = None"
    by (cases "map_of (settled (client ev w)) p") (auto simp add: moved_def)
  with Cons.prems(1,2) have "pending_all p n cs rs (client ev w)"
    by (intro client_window) auto
  with Cons.prems(2,3) c show ?case
    by (simp add: Cons.IH)
qed

lemma step_window:
  assumes "pending_all p n cs rs w" and "\<not> closes a"
    and "map_of (settled (step a w)) p = None"
  shows "pending_all p (if is_connect a then Suc n else n) cs rs (step a w)"
proof (cases a)
  case (Connect evs)
  from assms(1) have "connect evs w = connect_await AwaitExisting p evs w"
    by (simp add: pending_all_def connect_def connect_begin_cached)
  with Connect assms show ?thesis
    by (simp add: connect_await_window)
next
  case (Disconnect out)
  with assms(2) obtain e where "out = CloseFailed e"
    by (cases out) auto
  with Disconnect assms(1) show ?thesis
    by (simp add: pending_all_def disconnect_def mongoose_disconnect_def)
next
  case Disconnecting
  with assms(1) show ?thesis by (simp add: pending_all_def disconnect_begin_def)
next
  case (Ping out)
  with assms(1) show ?thesis
    by (cases out) (simp_all add: pending_all_def ping_def ping_try_def)
next
  case GetConnectionStatus
  with assms(1) show ?thesis by (simp add: getConnectionStatus_def)
next
  case (Client ev)
  with assms show ?thesis by (simp add: client_window)
qed

lemma run_window:
  assumes "pending_all p n cs rs w" and "\<forall>a \<in> set as. \<not> closes a"
    and "map_of (settled (run as w)) p = None"
  shows "pending_all p (n + length (filter is_connect as)) cs rs (run as w)"
  using assms
proof (induction as arbitrary: w n)
  case Nil
  then show ?case by (simp add: run_def)
next
  case (Cons a as)
  have r: "run (a # as) w = run as (step a w)"
    by (simp add: run_def)
  have "later (step a w) (run as (step a w))"
    by (rule run_later)
  with Cons.prems(3) r have "map_of (settled (step a w)) p = None"
    by (cases "map_of (settled (step a w)) p") (auto simp add: later_def)
  with Cons.prems(1,2)
  have "pending_all p (if is_connect a then Suc n else n) cs rs (step a w)"
    by (intro step_window) auto
  from Cons.IH [OF this] Cons.prems(2,3) r show ?case
    by (cases "is_connect a") simp_all
qed

text \<open>
  C1, as the specification has it, fails: with no URI in the environment, two callers call
  \<open>connect\<close> on a disconnected manager (flag false, no promise, client at ready state 0,
  nobody suspended); each gets the configuration error and no attempt is started, where the
  claim wants exactly one.
\<close>

theorem concurrent_connect_counterexample:
  "connectionPromise (fresh None None) = None \<and> \<not> isConnected (fresh None None)
   \<and> readyState (fresh None None) = 0 \<and> waiting (fresh None None) = []
   \<and> results (run [Connect [], Connect []] (fresh None None))
        = [Inl UriRequired, Inl UriRequired]
   \<and> connect_calls (run [Connect [], Connect []] (fresh None None)) = []"
  by (simp add: eval_defs)

text \<open>
  Why the amended claim asks that no earlier caller be suspended. A first caller starts
  attempt 0 and waits; a \<open>disconnect\<close> closes the connection and clears the promise. Of two
  later callers, the first starts attempt 1; then attempt 0 rejects, the first caller's catch
  block clears the promise that belongs to attempt 1, and the second of the two callers
  starts attempt 2, with attempt 1 still pending.
\<close>

lemma stale_caller_second_attempt:
  "waiting (run [Connect [], Client (ReadyState 2), Disconnect Closed]
      (fresh (Some ''mongodb://a.example/shop'') None)) = [(AwaitNew, 0)]
   \<and> connectionPromise (run [Connect [], Client (ReadyState 2), Disconnect Closed]
      (fresh (Some ''mongodb://a.example/shop'') None)) = None
   \<and> length (connect_calls (run [Connect [], Client (ReadyState 2), Disconnect Closed,
        Connect [], Client (Settles 0 (Inl (ClientError 4))), Connect []]
      (fresh (Some ''mongodb://a.example/shop'') None))) = 3"
  by (simp add: eval_defs)

text \<open>
  C1, amended. The manager holds no promise, is not both connected and at ready state 1, the
  environment has a valid URI, and no earlier call of \<open>connect\<close> is still suspended. One
  caller calls \<open>connect\<close>. Then anything may happen in which no \<open>disconnect\<close> closes the
  connection (further calls of \<open>connect\<close>, of \<open>ping\<close> and \<open>getConnectionStatus\<close>, calls of
  \<open>disconnect\<close> that find nothing to close, stay suspended or fail, moves of the client),
  as long as the promise of the first caller's attempt is pending. Then
  \<open>mongoose.connect\<close> has been called exactly once, with the configuration of the
  environment, no caller has returned, and the suspended callers are the first caller and
  every further caller, all waiting for the promise of that one call. When the client then
  settles that promise, all of them are resumed and each gets the promise's outcome: the
  same error if it rejected, and the same object if it fulfilled with the client at ready
  state 1; still \<open>mongoose.connect\<close> has been called once.
\<close>

theorem concurrent_connect_single_attempt:
  assumes "connectionPromise w = None" and "\<not> (isConnected w \<and> readyState w = 1)"
    and "getConfig w = Inr cfg"
    and "waiting w = []"
    and "\<forall>a \<in> set as. \<not> closes a"
    and "map_of (settled (run (Connect [] # as) w)) (length (connect_calls w)) = None"
    and "isl out \<or> readyState (run (Connect [] # as) w) = 1"
  shows "connect_calls (run (Connect [] # as) w) = connect_calls w @ [cfg]
     \<and> waiting (run (Connect [] # as) w)
         = (AwaitNew, length (connect_calls w))
           # replicate (length (filter is_connect as)) (AwaitExisting, length (connect_calls w))
     \<and> results (run (Connect [] # as) w) = results w
     \<and> connect_calls (client (Settles (length (connect_calls w)) out) (run (Connect [] # as) w))
         = connect_calls w @ [cfg]
     \<and> waiting (client (Settles (length (connect_calls w)) out) (run (Connect [] # as) w)) = []
     \<and> results (client (Settles (length (connect_calls w)) out) (run (Connect [] # as) w))
         = results w @ replicate (Suc (length (filter is_connect as))) out"
proof -
  let ?p = "length (connect_calls w)"
  let ?n = "length (filter is_connect as)"
  let ?w0 = "(setupEventListeners w) \<lparr> connect_calls := connect_calls w @ [cfg],
               connectionPromise := Some ?p \<rparr>"
  let ?w1 = "fst (connect [] w)"
  let ?w2 = "run (Connect [] # as) w"
  have r: "?w2 = run as ?w1"
    by (simp add: run_def)
  have b: "connect_begin w = (?w0, Awaiting AwaitNew ?p)"
    using assms(1-3) by (rule connect_begin_new)
  have "later w ?w2"
    by (rule run_later)
  with assms(6) have unsettled: "map_of (settled w) ?p = None"
    by (cases "map_of (settled w) ?p") (auto simp add: later_def)
  then have "connect_resume AwaitNew ?p ?w0 = (?w0, Awaiting AwaitNew ?p)"
    by (simp add: connect_resume_def setupEventListeners_def)
  with b have w1: "?w1 = ?w0 \<lparr> waiting := waiting ?w0 @ [(AwaitNew, ?p)] \<rparr>"
    by (simp add: connect_def finish_def)
  with assms(4) unsettled have start: "pending_all ?p 0 (connect_calls w @ [cfg]) (results w) ?w1"
    by (simp add: pending_all_def setupEventListeners_def)
  from assms(6) r have "map_of (settled (run as ?w1)) ?p = None"
    by simp
  with start assms(5) have "pending_all ?p (0 + ?n) (connect_calls w @ [cfg]) (results w) (run as ?w1)"
    by (rule run_window)
  with r have win: "pending_all ?p ?n (connect_calls w @ [cfg]) (results w) ?w2"
    by simp
  let ?v = "?w2 \<lparr> settled := settled ?w2 @ [(?p, out)] \<rparr>"
  let ?ws = "(AwaitNew, ?p) # replicate ?n (AwaitExisting, ?p)"
  let ?f = "\<lambda>(ap, q) v. if q = ?p then finish (connect_resume ap q v) else v"
  from win have sv: "settle ?p out ?w2 = ?v"
    by (simp add: pending_all_def settle_def)
  from win have wv: "waiting ?v = ?ws"
    by (simp add: pending_all_def)
  have all: "\<forall>x \<in> set ?ws. snd x = ?p"
    by simp
  then have none: "filter (\<lambda>(ap, q). q \<noteq> ?p) ?ws = []"
    by (simp add: filter_empty_conv case_prod_unfold)
  let ?u = "?v \<lparr> waiting := [] \<rparr>"
  have wk: "wake ?p ?v = fold ?f ?ws ?u"
    by (simp only: wake_def wv none)
  from win have "map_of (settled ?u) ?p = Some out"
    by (simp add: pending_all_def map_add_def)
  moreover from assms(7) have "isl out \<or> readyState ?u = 1"
    by simp
  ultimately have "results (fold ?f ?ws ?u) = results ?u @ replicate (length ?ws) out
     \<and> waiting (fold ?f ?ws ?u) = waiting ?u"
    using all by (intro fold_wake_all)
  with win wk have fin: "results (wake ?p ?v) = results w @ replicate (Suc ?n) out
     \<and> waiting (wake ?p ?v) = []"
    by (simp add: pending_all_def)
  have "undisturbed ?v (wake ?p ?v)"
    by (rule wake_undisturbed)
  with win have "connect_calls (wake ?p ?v) = connect_calls w @ [cfg]"
    by (simp add: undisturbed_def pending_all_def)
  with fin sv win show ?thesis
    by (simp add: pending_all_def)
qed

theorem concurrent_connect_single_attempt_witness:
  "map uri (connect_calls (run [Connect [], Connect [ReadyState 1],
        Disconnect (CloseFailed (ClientError 3)), Connect []]
      (fresh (Some ''mongodb://a.example/shop'') None))) = [''mongodb://a.example/shop'']
   \<and> waiting (run [Connect [], Connect [ReadyState 1],
        Disconnect (CloseFailed (ClientError 3)), Connect []]
      (fresh (Some ''mongodb://a.example/shop'') None))
       = [(AwaitNew, 0), (AwaitExisting, 0), (AwaitExisting, 0)]
   \<and> results (client (Settles 0 (Inr mongoose))
        (run [Connect [], Connect [ReadyState 1],
          Disconnect (CloseFailed (ClientError 3)), Connect []]
        (fresh (Some ''mongodb://a.example/shop'') None)))
       = [Inr mongoose, Inr mongoose, Inr mongoose]
   \<and> waiting (client (Settles 0 (Inr mongoose))
        (run [Connect [], Connect [ReadyState 1],
          Disconnect (CloseFailed (ClientError 3)), Connect []]
        (fresh (Some ''mongodb://a.example/shop'') None))) = []
   \<and> map uri (connect_calls (client (Settles 0 (Inr mongoose))
        (run [Connect [], Connect [ReadyState 1],
          Disconnect (CloseFailed (ClientError 3)), Connect []]
        (fresh (Some ''mongodb://a.example/shop'') None)))) = [''mongodb://a.example/shop'']"
proof -
  let ?w = "fresh (Some ''mongodb://a.example/shop'') None"
  let ?as = "[Connect [ReadyState 1], Disconnect (CloseFailed (ClientError 3)), Connect []]"
  have 1: "connectionPromise ?w = None" by (simp add: fresh_def)
  have 2: "\<not> (isConnected ?w \<and> readyState ?w = 1)" by (simp add: fresh_def)
  have 3: "getConfig ?w = Inr (projr (getConfig ?w))"
    by (simp add: getConfig_def fresh_def startsWith_def)
  have 4: "waiting ?w = []" by (simp add: fresh_def)
  have 5: "\<forall>a \<in> set ?as. \<not> closes a" by simp
  have 6: "map_of (settled (run (Connect [] # ?as) ?w)) (length (connect_calls ?w)) = None"
    by (simp add: eval_defs)
  have "readyState (run (Connect [] # ?as) ?w) = 1"
    by (simp add: eval_defs)
  then have 7: "isl (Inr mongoose :: error + handle) \<or> readyState (run (Connect [] # ?as) ?w) = 1"
    by simp
  have k: "connect_calls ?w = []" and r: "results ?w = []"
    and u: "uri (projr (getConfig ?w)) = ''mongodb://a.example/shop''"
    by (simp_all add: getConfig_def fresh_def startsWith_def)
  from concurrent_connect_single_attempt [OF 1 2 3 4 5 6 7] show ?thesis
    unfolding k r by (simp add: u)
qed

section \<open>Registrations\<close>

lemma connect_begin_growth:
  "prefix (connection_listeners w) (connection_listeners (fst (connect_begin w)))
   \<and> prefix (process_listeners w) (process_listeners (fst (connect_begin w)))
   \<and> prefix (connect_calls w) (connect_calls (fst (connect_begin w)))
   \<and> length (connection_listeners (fst (connect_begin w))) + 5 * length (connect_calls w)
       = length (connection_listeners w) + 5 * length (connect_calls (fst (connect_begin w)))
   \<and> length (process_listeners (fst (connect_begin w))) + 2 * length (connect_calls w)
       = length (process_listeners w) + 2 * length (connect_calls (fst (connect_begin w)))"
proof (cases "connectionPromise w = None \<and> \<not> (isConnected w \<and> readyState w = 1)
               \<and> (\<exists>cfg. getConfig w = Inr cfg)")
  case True
  then obtain cfg where "getConfig w = Inr cfg" by blast
  with True show ?thesis
    by (simp add: connect_begin_new setupEventListeners_def)
next
  case False
  then have "connectionPromise w \<noteq> None \<or> (isConnected w \<and> readyState w = 1)
             \<or> (\<exists>e. getConfig w = Inl e)"
    by (cases "getConfig w") auto
  then obtain b q s where "connect_begin w = (w \<lparr> isConnected := b, connectionPromise := q \<rparr>, s)"
    using connect_begin_old [of w] by blast
  then show ?thesis by simp
qed

lemma connect_growth:
  "prefix (connection_listeners w) (connection_listeners (fst (connect evs w)))
   \<and> prefix (process_listeners w) (process_listeners (fst (connect evs w)))
   \<and> prefix (connect_calls w) (connect_calls (fst (connect evs w)))
   \<and> length (connection_listeners (fst (connect evs w))) + 5 * length (connect_calls w)
       = length (connection_listeners w) + 5 * length (connect_calls (fst (connect evs w)))
   \<and> length (process_listeners (fst (connect evs w))) + 2 * length (connect_calls w)
       = length (process_listeners w) + 2 * length (connect_calls (fst (connect evs w)))"
  using connect_begin_growth [of w] connect_moved [of w evs]
  by (simp add: moved_def)

lemma step_growth:
  "prefix (connection_listeners w) (connection_listeners (step a w))
   \<and> prefix (process_listeners w) (process_listeners (step a w))
   \<and> prefix (connect_calls w) (connect_calls (step a w))
   \<and> length (connection_listeners (step a w)) + 5 * length (connect_calls w)
       = length (connection_listeners w) + 5 * length (connect_calls (step a w))
   \<and> length (process_listeners (step a w)) + 2 * length (connect_calls w)
       = length (process_listeners w) + 2 * length (connect_calls (step a w))"
proof (cases a)
  case (Connect evs)
  then show ?thesis using connect_growth [of w evs] by simp
next
  case (Disconnect out)
  then show ?thesis
    by (cases out) (simp_all add: disconnect_def mongoose_disconnect_def)
next
  case Disconnecting
  then show ?thesis by (simp add: disconnect_begin_def)
next
  case (Ping out)
  then show ?thesis
    by (cases out) (simp_all add: ping_def ping_try_def)
next
  case GetConnectionStatus
  then show ?thesis by (simp add: getConnectionStatus_def)
next
  case (Client ev)
  then show ?thesis using client_moved [of w ev] by (simp add: moved_def)
qed

lemma run_growth:
  "prefix (connection_listeners w) (connection_listeners (run as w))
   \<and> prefix (process_listeners w) (process_listeners (run as w))
   \<and> prefix (connect_calls w) (connect_calls (run as w))
   \<and> length (connection_listeners (run as w)) + 5 * length (connect_calls w)
       = length (connection_listeners w) + 5 * length (connect_calls (run as w))
   \<and> length (process_listeners (run as w)) + 2 * length (connect_calls w)
       = length (process_listeners w) + 2 * length (connect_calls (run as w))"
  unfolding run_def
proof (induction as arbitrary: w)
  case Nil
  then show ?case by simp
next
  case (Cons a as)
  have s: "prefix (connection_listeners w) (connection_listeners (step a w))
   \<and> prefix (process_listeners w) (process_listeners (step a w))
   \<and> prefix (connect_calls w) (connect_calls (step a w))
   \<and> length (connection_listeners (step a w)) + 5 * length (connect_calls w)
       = length (connection_listeners w) + 5 * length (connect_calls (step a w))
   \<and> length (process_listeners (step a w)) + 2 * length (connect_calls w)
       = length (process_listeners w) + 2 * length (connect_calls (step a w))"
    by (rule step_growth)
  from Cons.IH [of "step a w"] s show ?case
    by (auto intro: prefix_order.trans)
qed

text \<open>
  C8. A call of \<open>connect\<close> that starts an attempt appends the five lifecycle listeners
  (connected, error, disconnected, reconnected, close) and the two signal handlers (SIGINT,
  SIGTERM) to what is registered already. No call and no move of the client takes a
  registration away: after any run the earlier registrations are a prefix of the later ones.
  So they pile up: over any run the number of lifecycle listeners grows by five, and the
  number of signal handlers by two, for every attempt started during the run.
\<close>

theorem listeners_accumulate:
  "(connect_calls (fst (connect_begin w)) \<noteq> connect_calls w \<longrightarrow>
      connection_listeners (fst (connect_begin w)) =
        connection_listeners w @ [EvConnected, EvError, EvDisconnected, EvReconnected, EvClose]
      \<and> process_listeners (fst (connect_begin w)) = process_listeners w @ [SIGINT, SIGTERM])
   \<and> prefix (connection_listeners w) (connection_listeners (run as w))
   \<and> prefix (process_listeners w) (process_listeners (run as w))
   \<and> length (connection_listeners (run as w)) + 5 * length (connect_calls w)
       = length (connection_listeners w) + 5 * length (connect_calls (run as w))
   \<and> length (process_listeners (run as w)) + 2 * length (connect_calls w)
       = length (process_listeners w) + 2 * length (connect_calls (run as w))"
proof -
  have "connect_calls (fst (connect_begin w)) \<noteq> connect_calls w \<longrightarrow>
      connection_listeners (fst (connect_begin w)) =
        connection_listeners w @ [EvConnected, EvError, EvDisconnected, EvReconnected, EvClose]
      \<and> process_listeners (fst (connect_begin w)) = process_listeners w @ [SIGINT, SIGTERM]"
  proof (cases "connectionPromise w = None \<and> \<not> (isConnected w \<and> readyState w = 1)
               \<and> (\<exists>cfg. getConfig w = Inr cfg)")
    case True
    then obtain cfg where "getConfig w = Inr cfg" by blast
    with True show ?thesis
      by (simp add: connect_begin_new setupEventListeners_def)
  next
    case False
    then have "connectionPromise w \<noteq> None \<or> (isConnected w \<and> readyState w = 1)
               \<or> (\<exists>e. getConfig w = Inl e)"
      by (cases "getConfig w") auto
    then obtain b q s where "connect_begin w = (w \<lparr> isConnected := b, connectionPromise := q \<rparr>, s)"
      using connect_begin_old [of w] by blast
    then show ?thesis by simp
  qed
  with run_growth [of w as] show ?thesis by blast
qed

theorem listeners_accumulate_witness:
  "connect_calls (fst (connect_begin (fresh (Some ''mongodb://a.example/shop'') None)))
     \<noteq> connect_calls (fresh (Some ''mongodb://a.example/shop'') None)
   \<and> connection_listeners (fst (connect_begin (fresh (Some ''mongodb://a.example/shop'') None)))
       = [EvConnected, EvError, EvDisconnected, EvReconnected, EvClose]
   \<and> process_listeners (fst (connect_begin (fresh (Some ''mongodb://a.example/shop'') None)))
       = [SIGINT, SIGTERM]
   \<and> length (connect_calls (run [Connect (established 0), Disconnect Closed, Connect (established 1)]
        (fresh (Some ''mongodb://a.example/shop'') None))) = 2
   \<and> length (connection_listeners (run [Connect (established 0), Disconnect Closed, Connect (established 1)]
        (fresh (Some ''mongodb://a.example/shop'') None))) = 10
   \<and> process_listeners (run [Connect (established 0), Disconnect Closed, Connect (established 1)]
        (fresh (Some ''mongodb://a.example/shop'') None)) = [SIGINT, SIGTERM, SIGINT, SIGTERM]"
  using listeners_accumulate
      [of "fresh (Some ''mongodb://a.example/shop'') None"
          "[Connect (established 0), Disconnect Closed, Connect (established 1)]"]
  by (simp add: eval_defs)

section \<open>The promise that stays\<close>

lemma attempt_held:
  assumes "snd (connect_begin w) = Awaiting AwaitNew p"
    and "snd (connect evs w) = Returned (Inr h)"
    and "Closes Closed \<notin> set evs"
    and "failures (fst (connect evs w)) = failures w"
  shows "held p h (fst (connect evs w))
         \<and> connect_calls (fst (connect evs w)) \<noteq> connect_calls w"
proof -
  obtain w1 where b: "connect_begin w = (w1, Awaiting AwaitNew p)"
    using assms(1) by (cases "connect_begin w") simp
  have cold: "connectionPromise w = None \<and> \<not> (isConnected w \<and> readyState w = 1)
      \<and> (\<exists>cfg. getConfig w = Inr cfg)"
    using b by (auto simp add: connect_begin_def connect_catch_def split: option.splits if_splits sum.splits)
  then obtain cfg where cfg: "getConfig w = Inr cfg" by blast
  with cold have e: "connect_begin w =
           ((setupEventListeners w) \<lparr> connect_calls := connect_calls w @ [cfg],
               connectionPromise := Some (length (connect_calls w)) \<rparr>,
            Awaiting AwaitNew (length (connect_calls w)))"
    by (intro connect_begin_new) simp_all
  from b e have w1: "w1 = (setupEventListeners w) \<lparr> connect_calls := connect_calls w @ [cfg],
               connectionPromise := Some (length (connect_calls w)) \<rparr>"
    by (metis fst_conv)
  from b e have p: "p = length (connect_calls w)"
    by (metis snd_conv suspension.inject(2))
  have c: "connect evs w = connect_await AwaitNew p evs w1"
    using b by (simp add: connect_def)
  from w1 p have pr: "connectionPromise w1 = Some p" and f: "failures w1 = failures w"
    and k: "connect_calls w1 = connect_calls w @ [cfg]"
    by (simp_all add: setupEventListeners_def failures_def)
  have "calm w1 (fst (connect_await AwaitNew p evs w1))"
    using assms(3) by (rule connect_await_calm)
  with c f pr k assms(4) have "connectionPromise (fst (connect evs w)) = Some p"
    and "connect_calls (fst (connect evs w)) = connect_calls w @ [cfg]"
    by (simp_all add: calm_def moved_def)
  moreover have "map_of (settled (fst (connect evs w))) p = Some (Inr h)"
    using connect_await_result [of AwaitNew p evs w1 h] assms(2) c by simp
  ultimately show ?thesis
    by (simp add: held_def)
qed

lemma held_served:
  assumes "held p h w"
  shows "connect_begin w = (w, Awaiting AwaitExisting p)
     \<and> snd (connect evs w) = Returned (Inr h)
     \<and> connect_calls (fst (connect evs w)) = connect_calls w
     \<and> connectionPromise (fst (connect [] w)) = Some p"
proof -
  from assms have p: "connectionPromise w = Some p"
    by (simp add: held_def)
  have "moved w (fst (connect_begin w))"
    using p by (simp add: connect_begin_cached moved_refl)
  then have "moved w (fst (connect evs w))"
    using connect_moved [of w evs] by (rule moved_trans)
  then have "connect_calls (fst (connect evs w)) = connect_calls w"
    by (simp add: moved_def)
  moreover have "connectionPromise (fst (connect [] w)) = Some p"
    using p by (simp add: connect_held [OF assms])
  ultimately show ?thesis
    using p by (simp add: connect_begin_cached connect_held [OF assms])
qed

lemma run_held:
  assumes "connectionPromise w = Some p" and "\<forall>a \<in> set as. \<not> closes a"
    and "failures (run as w) = failures w"
    and "map_of (settled (run as w)) p = Some (Inr h)"
  shows "held p h (run as w) \<and> connect_calls (run as w) = connect_calls w"
  using run_kept [OF assms(1,2,3)] assms(4) by (simp add: held_def)

text \<open>
  C10. A call of \<open>connect\<close> starts an attempt, and the promise of the attempt fulfils. If
  since that call began no call of \<open>connect\<close> has failed and no \<open>disconnect\<close> has closed
  the connection, then, whatever else has happened in between and since (further calls
  of \<open>connect\<close>, \<open>ping\<close> and \<open>getConnectionStatus\<close>, lifecycle notifications, among them
  disconnected, error and close, changes of the ready state, \<open>disconnect\<close> calls that fail,
  stay suspended or find nothing to close), the manager holds the promise of that attempt,
  and every call of \<open>connect\<close> takes the first branch, waits for that promise and returns
  the object it fulfilled with; it starts no attempt and leaves the promise in place. The
  second half says the same for a call of \<open>connect\<close> that started the attempt and, with
  nothing but moves of the client in between, has returned that object.
\<close>

theorem cached_promise_persists:
  assumes "snd (connect_begin w) = Awaiting AwaitNew p"
    and "\<forall>a \<in> set as. \<not> closes a"
  shows "(map_of (settled (run as (fst (connect [] w)))) p = Some (Inr h)
          \<and> failures (run as (fst (connect [] w))) = failures w \<longrightarrow>
            connectionPromise (run as (fst (connect [] w))) = Some p
            \<and> connect_begin (run as (fst (connect [] w)))
                = (run as (fst (connect [] w)), Awaiting AwaitExisting p)
            \<and> snd (connect evs' (run as (fst (connect [] w)))) = Returned (Inr h)
            \<and> connect_calls (fst (connect evs' (run as (fst (connect [] w)))))
                = connect_calls (fst (connect_begin w))
            \<and> connectionPromise (fst (connect [] (run as (fst (connect [] w))))) = Some p)
     \<and> (snd (connect evs w) = Returned (Inr h) \<and> Closes Closed \<notin> set evs
          \<and> failures (run as (fst (connect evs w))) = failures w \<longrightarrow>
            connectionPromise (run as (fst (connect evs w))) = Some p
            \<and> map_of (settled (run as (fst (connect evs w)))) p = Some (Inr h)
            \<and> connect_begin (run as (fst (connect evs w)))
                = (run as (fst (connect evs w)), Awaiting AwaitExisting p)
            \<and> snd (connect evs' (run as (fst (connect evs w)))) = Returned (Inr h)
            \<and> connect_calls (fst (connect evs' (run as (fst (connect evs w)))))
                = connect_calls (fst (connect_begin w))
            \<and> connectionPromise (fst (connect [] (run as (fst (connect evs w))))) = Some p)"
proof -
  obtain w1 where b: "connect_begin w = (w1, Awaiting AwaitNew p)"
    using assms(1) by (cases "connect_begin w") simp
  have cold: "connectionPromise w = None \<and> \<not> (isConnected w \<and> readyState w = 1)
      \<and> (\<exists>cfg. getConfig w = Inr cfg)"
    using b by (auto simp add: connect_begin_def connect_catch_def split: option.splits if_splits sum.splits)
  then obtain cfg where cfg: "getConfig w = Inr cfg" by blast
  with cold have e: "connect_begin w =
           ((setupEventListeners w) \<lparr> connect_calls := connect_calls w @ [cfg],
               connectionPromise := Some (length (connect_calls w)) \<rparr>,
            Awaiting AwaitNew (length (connect_calls w)))"
    by (intro connect_begin_new) simp_all
  from b e have w1: "w1 = (setupEventListeners w) \<lparr> connect_calls := connect_calls w @ [cfg],
               connectionPromise := Some (length (connect_calls w)) \<rparr>"
    by (metis fst_conv)
  from b e have p: "p = length (connect_calls w)"
    by (metis snd_conv suspension.inject(2))
  from w1 p have pr: "connectionPromise w1 = Some p" and f: "failures w1 = failures w"
    by (simp_all add: setupEventListeners_def failures_def)
  have first: "connectionPromise (run as (fst (connect [] w))) = Some p
            \<and> connect_begin (run as (fst (connect [] w)))
                = (run as (fst (connect [] w)), Awaiting AwaitExisting p)
            \<and> snd (connect evs' (run as (fst (connect [] w)))) = Returned (Inr h)
            \<and> connect_calls (fst (connect evs' (run as (fst (connect [] w)))))
                = connect_calls (fst (connect_begin w))
            \<and> connectionPromise (fst (connect [] (run as (fst (connect [] w))))) = Some p"
    if s: "map_of (settled (run as (fst (connect [] w)))) p = Some (Inr h)"
      and n: "failures (run as (fst (connect [] w))) = failures w"
  proof -
    let ?w0 = "fst (connect [] w)"
    let ?w2 = "run as ?w0"
    have c: "connect [] w = connect_await AwaitNew p [] w1"
      using b by (simp add: connect_def)
    have calm0: "calm w1 ?w0"
      unfolding c by (rule connect_await_calm) simp
    have "failures w \<le> failures ?w0"
      using connect_later [of w "[]"] by (simp add: later_def)
    moreover have "failures ?w0 \<le> failures ?w2"
      using run_later [of ?w0 as] by (simp add: later_def)
    ultimately have f0: "failures ?w0 = failures w" and f2: "failures ?w2 = failures ?w0"
      using n by simp_all
    from calm0 f0 f pr have p0: "connectionPromise ?w0 = Some p"
      and k0: "connect_calls ?w0 = connect_calls w1"
      by (simp_all add: calm_def moved_def)
    from run_held [OF p0 assms(2) f2 s] have "held p h ?w2"
      and "connect_calls ?w2 = connect_calls ?w0"
      by simp_all
    with held_served [of p h ?w2 evs'] k0 b show ?thesis
      by (simp add: held_def)
  qed
  have second: "connectionPromise (run as (fst (connect evs w))) = Some p
            \<and> map_of (settled (run as (fst (connect evs w)))) p = Some (Inr h)
            \<and> connect_begin (run as (fst (connect evs w)))
                = (run as (fst (connect evs w)), Awaiting AwaitExisting p)
            \<and> snd (connect evs' (run as (fst (connect evs w)))) = Returned (Inr h)
            \<and> connect_calls (fst (connect evs' (run as (fst (connect evs w)))))
                = connect_calls (fst (connect_begin w))
            \<and> connectionPromise (fst (connect [] (run as (fst (connect evs w))))) = Some p"
    if r: "snd (connect evs w) = Returned (Inr h)" and q: "Closes Closed \<notin> set evs"
      and n: "failures (run as (fst (connect evs w))) = failures w"
  proof -
    let ?w0 = "fst (connect evs w)"
    let ?w2 = "run as ?w0"
    have "failures w \<le> failures ?w0"
      using connect_later [of w evs] by (simp add: later_def)
    moreover have "failures ?w0 \<le> failures ?w2"
      using run_later [of ?w0 as] by (simp add: later_def)
    ultimately have f0: "failures ?w0 = failures w" and f2: "failures ?w2 = failures ?w0"
      using n by simp_all
    from attempt_held [OF assms(1) r q f0] have h0: "held p h ?w0"
      by simp
    have c: "connect evs w = connect_await AwaitNew p evs w1"
      using b by (simp add: connect_def)
    have "moved w1 ?w0"
      unfolding c by (rule connect_await_moved)
    then have k0: "connect_calls ?w0 = connect_calls w1"
      by (simp add: moved_def)
    from h0 have p0: "connectionPromise ?w0 = Some p"
      by (simp add: held_def)
    from h0 run_later [of ?w0 as] have s2: "map_of (settled ?w2) p = Some (Inr h)"
      by (simp add: held_def later_def)
    from run_held [OF p0 assms(2) f2 s2] have "held p h ?w2"
      and "connect_calls ?w2 = connect_calls ?w0"
      by simp_all
    with held_served [of p h ?w2 evs'] k0 b show ?thesis
      by (simp add: held_def)
  qed
  from first second show ?thesis
    by blast
qed

theorem cached_promise_persists_witness:
  "snd (connect_begin (fresh (Some ''mongodb://a.example/shop'') None)) = Awaiting AwaitNew 0
   \<and> map_of (settled (run [Connect [], Client (ReadyState 1), Client (Settles 0 (Inr mongoose)),
          Client (ReadyState 0), Client (Emits EvDisconnected)]
        (fst (connect [] (fresh (Some ''mongodb://a.example/shop'') None))))) 0 = Some (Inr mongoose)
   \<and> readyState (run [Connect [], Client (ReadyState 1), Client (Settles 0 (Inr mongoose)),
          Client (ReadyState 0), Client (Emits EvDisconnected)]
        (fst (connect [] (fresh (Some ''mongodb://a.example/shop'') None)))) = 0
   \<and> snd (connect [] (run [Connect [], Client (ReadyState 1), Client (Settles 0 (Inr mongoose)),
          Client (ReadyState 0), Client (Emits EvDisconnected)]
        (fst (connect [] (fresh (Some ''mongodb://a.example/shop'') None)))))
       = Returned (Inr mongoose)
   \<and> connectionPromise (fst (connect [] (run [Connect [], Client (ReadyState 1),
          Client (Settles 0 (Inr mongoose)), Client (ReadyState 0), Client (Emits EvDisconnected)]
        (fst (connect [] (fresh (Some ''mongodb://a.example/shop'') None)))))) = Some 0
   \<and> snd (connect (established 0) (fresh (Some ''mongodb://a.example/shop'') None))
       = Returned (Inr mongoose)
   \<and> snd (connect [] (run [Client (Emits EvClose), Disconnecting]
        (fst (connect (established 0) (fresh (Some ''mongodb://a.example/shop'') None)))))
       = Returned (Inr mongoose)"
proof -
  let ?w = "fresh (Some ''mongodb://a.example/shop'') None"
  let ?as = "[Connect [], Client (ReadyState 1), Client (Settles 0 (Inr mongoose)),
          Client (ReadyState 0), Client (Emits EvDisconnected)]"
  let ?bs = "[Client (Emits EvClose), Disconnecting]"
  have 1: "snd (connect_begin ?w) = Awaiting AwaitNew 0"
    by (simp add: eval_defs)
  have 2: "\<forall>a \<in> set ?as. \<not> closes a"
    by simp
  have 3: "\<forall>a \<in> set ?bs. \<not> closes a"
    by simp
  have f: "failures ?w = 0"
    by (simp add: fresh_def failures_def)
  have 4: "map_of (settled (run ?as (fst (connect [] ?w)))) 0 = Some (Inr mongoose)"
    by (simp add: eval_defs)
  have 5: "failures (run ?as (fst (connect [] ?w))) = 0"
    by (simp add: eval_defs failures_def)
  have 6: "readyState (run ?as (fst (connect [] ?w))) = 0"
    by (simp add: eval_defs)
  have 7: "snd (connect (established 0) ?w) = Returned (Inr mongoose)"
    by (simp add: eval_defs)
  have 8: "Closes Closed \<notin> set (established 0)"
    by (simp add: established_def)
  have 9: "failures (run ?bs (fst (connect (established 0) ?w))) = 0"
    by (simp add: eval_defs failures_def)
  from cached_promise_persists [OF 1 2, of mongoose "[]" "established 0"]
    cached_promise_persists [OF 1 3, of mongoose "[]" "established 0"] 1 4 5 6 7 8 9
  show ?thesis
    unfolding f by simp
qed

end
